theory Spec2Isabelle
  imports Complex_Main "HOL-Library.Option_ord" "HOL-Library.Char_ord"
    "HOL-Library.List_Lexorder"
begin

section \<open>Python values shared by the models\<close>

text \<open>
  The exceptions the modelled code can raise. Every \<open>raise\<close>, failed \<open>assert\<close> and
  failing library call of the source is a value \<open>Inl e\<close> of a result type
  \<open>py_error + 'a\<close>.
\<close>

datatype py_error =
    IndexError
  | KeyError
  | AssertionError
  | ZeroDivisionError
  | RuntimeError
  | ValueError
  | AttributeError
  | IOError

text \<open>
  Subscripting a Python list, \<open>xs[i]\<close>: indices \<open>0 .. len - 1\<close> read from the front,
  indices \<open>-len .. -1\<close> from the back, everything else raises.
\<close>

definition py_index :: "'a list \<Rightarrow> int \<Rightarrow> py_error + 'a" where
  "py_index xs i =
     (if 0 \<le> i \<and> i < int (length xs) then Inr (xs ! nat i)
      else if i < 0 \<and> - int (length xs) \<le> i then Inr (xs ! nat (int (length xs) + i))
      else Inl IndexError)"

text \<open>Python slice \<open>xs[:b]\<close>: a negative bound counts from the end.\<close>

definition py_slice_to :: "'a list \<Rightarrow> int \<Rightarrow> 'a list" where
  "py_slice_to xs b =
     (if 0 \<le> b then take (nat b) xs else take (length xs - nat (- b)) xs)"

text \<open>Python slice \<open>xs[a:]\<close>; note that \<open>xs[-0:]\<close> is the whole list.\<close>

definition py_slice_from :: "'a list \<Rightarrow> int \<Rightarrow> 'a list" where
  "py_slice_from xs a =
     (if 0 \<le> a then drop (nat a) xs else drop (length xs - nat (- a)) xs)"

section \<open>CommandDataset (train.py)\<close>

text \<open>One entry of \<open>self.data\<close>, as \<open>_load_data\<close> appends it.\<close>

record item =
  tokens :: "int list"
  command :: string
  exit_code :: int

text \<open>
  \<open>CommandDataset.__getitem__\<close>: the token list is truncated to \<open>block_size\<close> or
  padded with zeros up to it, then \<open>x = tokens[:-1]\<close> and \<open>y = tokens[1:]\<close>.
\<close>

definition pad_or_truncate :: "int \<Rightarrow> int list \<Rightarrow> int list" where
  "pad_or_truncate block_size toks =
     (if int (length toks) > block_size then py_slice_to toks block_size
      else if int (length toks) < block_size
        then toks @ replicate (nat (block_size - int (length toks))) 0
      else toks)"

definition getitem :: "item list \<Rightarrow> int \<Rightarrow> int \<Rightarrow> py_error + (int list \<times> int list)" where
  "getitem data block_size idx =
     (case py_index data idx of
        Inl e \<Rightarrow> Inl e
      | Inr it \<Rightarrow>
          (let toks = pad_or_truncate block_size (tokens it)
           in Inr (py_slice_to toks (- 1), py_slice_from toks 1)))"

section \<open>Distributed setup (train_multi.py)\<close>

text \<open>
  The part of the launch environment \<open>setup_distributed\<close> reads: whether \<open>RANK\<close> is
  set, the value of \<open>LOCAL_RANK\<close> if any, and what the process group reports once
  initialised.
\<close>

record launch_env =
  rank_set :: bool
  local_rank_var :: "int option"
  group_rank :: int
  group_world_size :: int
  cuda_available :: bool

datatype device = Cpu | Cuda | CudaIdx int

text \<open>The fields of \<open>TrainingConfig\<close> that the trainer reads or writes.\<close>

record TrainingConfig =
  gradient_accumulation_steps :: int
  eval_iters :: int
  init_from :: string
  resume_checkpoint :: "string option"

record dist_state =
  rank :: int
  local_rank :: int
  world_size :: int
  is_main_process :: bool
  distributed :: bool
  dev :: device
  seed :: "int option"
  train_config :: TrainingConfig

text \<open>
  \<open>Trainer.setup_distributed\<close>. Without \<open>RANK\<close> it returns early with world size 1
  and the configuration untouched; otherwise
  \<open>gradient_accumulation_steps //= world_size\<close>, raised to 1 if it fell below.
  Python's \<open>//\<close> on integers is floor division, which is \<open>div\<close> on \<open>int\<close>; a zero
  divisor raises.
\<close>

definition setup_distributed :: "launch_env \<Rightarrow> TrainingConfig \<Rightarrow> py_error + dist_state" where
  "setup_distributed env tc =
     (if \<not> rank_set env then
        Inr \<lparr> rank = 0, local_rank = 0, world_size = 1, is_main_process = True,
              distributed = False,
              dev = (if cuda_available env then Cuda else Cpu),
              seed = None, train_config = tc \<rparr>
      else
        (let r = group_rank env;
             lr = (case local_rank_var env of None \<Rightarrow> 0 | Some v \<Rightarrow> v);
             w = group_world_size env
         in if w = 0 then Inl ZeroDivisionError
            else
              (let g = gradient_accumulation_steps tc div w;
                   g' = (if g < 1 then 1 else g)
               in Inr \<lparr> rank = r, local_rank = lr, world_size = w,
                         is_main_process = (r = 0), distributed = True,
                         dev = CudaIdx lr, seed = Some (42 + r),
                         train_config = tc\<lparr>gradient_accumulation_steps := g'\<rparr> \<rparr>)))"

section \<open>Validation loss (train_multi.py)\<close>

text \<open>
  Losses are Python floats; the reals stand for the finite ones and \<open>PosInf\<close> for
  \<open>float("inf")\<close>.
\<close>

datatype pyfloat = Fin real | PosInf

text \<open>
  The last statement of \<open>Trainer.evaluate\<close>:
  \<open>sum(val_losses) / len(val_losses) if val_losses else float("inf")\<close>.
\<close>

definition py_mean :: "real list \<Rightarrow> pyfloat" where
  "py_mean val_losses =
     (if val_losses \<noteq> [] then Fin (sum_list val_losses / real (length val_losses))
      else PosInf)"

text \<open>
  \<open>dist.reduce(tensor, dst=0, op=SUM)\<close>: rank 0 receives the element-wise sum of the
  tensors of all ranks, which must have the same shape.
\<close>

fun add_tensors :: "real list \<Rightarrow> real list \<Rightarrow> py_error + real list" where
  "add_tensors xs ys =
     (if length xs = length ys then Inr (map2 (+) xs ys) else Inl RuntimeError)"

fun reduce_sum :: "real list list \<Rightarrow> py_error + real list" where
  "reduce_sum [] = Inl RuntimeError"
| "reduce_sum [t] = Inr t"
| "reduce_sum (t # ts) =
     (case reduce_sum ts of Inl e \<Rightarrow> Inl e | Inr s \<Rightarrow> add_tensors t s)"

text \<open>
  The evaluation loop stops at \<open>eval_iters\<close> batches: a rank whose model yields the
  losses \<open>batch_losses\<close> on its validation batches collects the first \<open>eval_iters\<close>.
\<close>

definition local_val_losses :: "int \<Rightarrow> real list \<Rightarrow> real list" where
  "local_val_losses n_eval batch_losses = take (nat n_eval) batch_losses"

text \<open>
  \<open>Trainer.evaluate\<close> as rank \<open>r\<close> runs it; \<open>batch_losses ! q\<close> are the per-batch
  losses of rank \<open>q\<close>. In distributed mode the local lists are sum-reduced to rank
  0, which divides the reduced tensor by \<open>world_size * len(val_losses)\<close> and takes it
  as its \<open>val_losses\<close>; every rank then returns the mean of its \<open>val_losses\<close>.
\<close>

definition evaluate ::
  "bool \<Rightarrow> int \<Rightarrow> int \<Rightarrow> nat \<Rightarrow> real list list \<Rightarrow> py_error + pyfloat" where
  "evaluate is_dist w n_eval r batch_losses =
     (if \<not> r < length batch_losses then Inl IndexError
      else
        (let val_losses = local_val_losses n_eval (batch_losses ! r)
         in if is_dist then
              (case reduce_sum (map (local_val_losses n_eval) batch_losses) of
                 Inl e \<Rightarrow> Inl e
               | Inr val_loss_tensor \<Rightarrow>
                   (if r = 0 then
                      Inr (py_mean
                        (map (\<lambda>v. v / (real_of_int w * real (length val_losses)))
                           val_loss_tensor))
                    else Inr (py_mean val_losses)))
            else Inr (py_mean val_losses)))"

text \<open>
  The average the evaluation is meant to report: all per-batch losses of all replicas,
  summed and divided by their number.
\<close>

definition cross_replica_average :: "real list list \<Rightarrow> real" where
  "cross_replica_average ls =
     sum_list (map sum_list ls) / real (sum_list (map length ls))"

section \<open>Resuming from a checkpoint (train_multi.py)\<close>

type_synonym tensor = "real list"
type_synonym state_dict = "(string \<times> tensor) list"

record opt_state =
  group_sizes :: "nat list"
  moments :: "tensor list"

text \<open>A checkpoint is a dictionary; a key may be missing from a foreign file.\<close>

record checkpoint =
  ck_model :: "state_dict option"
  ck_optimizer :: "opt_state option"
  ck_iter_num :: "int option"
  ck_best_val_loss :: "pyfloat option"

datatype log_entry = LogInfo string | LogError py_error

text \<open>
  The trainer while \<open>setup_model_and_optimizer\<close> runs: the fields set by
  \<open>setup_distributed\<close>, the model's parameters, whether the model is wrapped in DDP
  (only then it has a \<open>module\<close> attribute), the optimizer if the attribute is
  already set, the two counters, and what was logged.
\<close>

record trainer = dist_state +
  model_params :: state_dict
  model_is_ddp :: bool
  optimizer :: "opt_state option"
  iter_num :: int
  best_val_loss :: pyfloat
  log :: "log_entry list"

definition unwanted_prefix :: string where
  "unwanted_prefix = ''_orig_mod.''"

definition startswith :: "string \<Rightarrow> string \<Rightarrow> bool" where
  "startswith k p = (take (length p) k = p)"

text \<open>\<open>d.pop(k)\<close> and \<open>d[k] = v\<close> on a dictionary kept as an association list.\<close>

definition dict_pop :: "string \<Rightarrow> state_dict \<Rightarrow> state_dict" where
  "dict_pop k d = filter (\<lambda>kv. fst kv \<noteq> k) d"

fun dict_set :: "string \<Rightarrow> tensor \<Rightarrow> state_dict \<Rightarrow> state_dict" where
  "dict_set k v [] = [(k, v)]"
| "dict_set k v ((k', v') # d) =
     (if k' = k then (k, v) # d else (k', v') # dict_set k v d)"

text \<open>
  The loop over \<open>list(state_dict.items())\<close> that renames every key starting with
  \<open>_orig_mod.\<close>; the first argument is the snapshot, the second the dictionary
  being rewritten.
\<close>

fun strip_prefix_loop :: "state_dict \<Rightarrow> state_dict \<Rightarrow> py_error + state_dict" where
  "strip_prefix_loop [] d = Inr d"
| "strip_prefix_loop ((k, v) # items) d =
     (if startswith k unwanted_prefix then
        (case map_of d k of
           None \<Rightarrow> Inl KeyError
         | Some popped \<Rightarrow>
             strip_prefix_loop items
               (dict_set (drop (length unwanted_prefix) k) popped (dict_pop k d)))
      else strip_prefix_loop items d)"

text \<open>
  \<open>Module.load_state_dict\<close> (strict): the keys must be the module's parameter
  names and every tensor must have the parameter's size.
\<close>

definition load_state_dict :: "state_dict \<Rightarrow> state_dict \<Rightarrow> py_error + state_dict" where
  "load_state_dict params sd =
     (if set (map fst sd) = set (map fst params)
         \<and> (\<forall>(k, v) \<in> set params. map_option length (map_of sd k) = Some (length v))
      then Inr (map (\<lambda>(k, v). (k, the (map_of sd k))) params)
      else Inl RuntimeError)"

definition opt_load_state_dict :: "opt_state \<Rightarrow> opt_state \<Rightarrow> py_error + opt_state" where
  "opt_load_state_dict opt saved =
     (if group_sizes saved = group_sizes opt then Inr saved else Inl ValueError)"

text \<open>
  The body of the \<open>try\<close> block of \<open>Trainer.load_checkpoint\<close>. It returns the trainer
  as the block leaves it, and the exception if one was raised: what was assigned
  before the exception stays assigned. \<open>torch_load\<close> stands for the file system:
  what \<open>torch.load\<close> returns or raises for a path.
\<close>

definition load_checkpoint_try ::
  "(string \<Rightarrow> py_error + checkpoint) \<Rightarrow> trainer \<Rightarrow> trainer \<times> py_error option" where
  "load_checkpoint_try torch_load t =
     (case (case resume_checkpoint (train_config t) of
              None \<Rightarrow> Inl AttributeError
            | Some checkpoint_path \<Rightarrow> torch_load checkpoint_path) of
        Inl e \<Rightarrow> (t, Some e)
      | Inr ck \<Rightarrow>
          if distributed t \<and> \<not> model_is_ddp t then (t, Some AttributeError)
          else
            (case ck_model ck of
               None \<Rightarrow> (t, Some KeyError)
             | Some state_dict \<Rightarrow>
                 (case strip_prefix_loop state_dict state_dict of
                    Inl e \<Rightarrow> (t, Some e)
                  | Inr sd \<Rightarrow>
                      (case load_state_dict (model_params t) sd of
                         Inl e \<Rightarrow> (t, Some e)
                       | Inr ps \<Rightarrow>
                           (let t1 = t\<lparr>model_params := ps\<rparr>
                            in case (case ck_optimizer ck of
                                       None \<Rightarrow> Inr (optimizer t1)
                                     | Some saved \<Rightarrow>
                                         if distributed t1 then Inr (optimizer t1)
                                         else (case optimizer t1 of
                                                 None \<Rightarrow> Inl AttributeError
                                               | Some opt \<Rightarrow>
                                                   map_sum id Some
                                                     (opt_load_state_dict opt saved))) of
                                 Inl e \<Rightarrow> (t1, Some e)
                               | Inr opt' \<Rightarrow>
                                   (let t2 = t1\<lparr>optimizer := opt',
                                               iter_num := (case ck_iter_num ck of
                                                              None \<Rightarrow> 0 | Some i \<Rightarrow> i),
                                               best_val_loss := (case ck_best_val_loss ck of
                                                                   None \<Rightarrow> PosInf
                                                                 | Some b \<Rightarrow> b)\<rparr>
                                    in (if is_main_process t2
                                        then t2\<lparr>log := log t2
                                                    @ [LogInfo ''Resuming from iteration'']\<rparr>
                                        else t2, None)))))))"

text \<open>The log line before the \<open>try\<close> block, written by the main process only.\<close>

definition announce_load :: "trainer \<Rightarrow> trainer" where
  "announce_load t =
     (if is_main_process t
      then t\<lparr>log := log t @ [LogInfo ''Loading checkpoint from'']\<rparr> else t)"

text \<open>
  \<open>Trainer.load_checkpoint\<close>: \<open>except Exception\<close> logs the error and resets the two
  counters. The result type has room for an exception that leaves the method.
\<close>

definition load_checkpoint ::
  "(string \<Rightarrow> py_error + checkpoint) \<Rightarrow> trainer \<Rightarrow> py_error + trainer" where
  "load_checkpoint torch_load t =
     (case load_checkpoint_try torch_load (announce_load t) of
        (t1, None) \<Rightarrow> Inr t1
      | (t1, Some e) \<Rightarrow>
          Inr (t1\<lparr>log := log t1 @ [LogError e], iter_num := 0,
                  best_val_loss := PosInf\<rparr>))"

text \<open>
  A trainer as \<open>setup_model_and_optimizer\<close> has it when it calls
  \<open>load_checkpoint\<close> in a single process (the optimizer is configured only
  afterwards), and a checkpoint saved from a compiled model.
\<close>

definition example_trainer :: trainer where
  "example_trainer =
     \<lparr> rank = 0, local_rank = 0, world_size = 1, is_main_process = True,
       distributed = False, dev = Cpu, seed = None,
       train_config = \<lparr> gradient_accumulation_steps = 4, eval_iters = 20,
          init_from = ''resume'', resume_checkpoint = Some ''latest.pt'' \<rparr>,
       model_params = [(''head.weight'', [0])], model_is_ddp = False,
       optimizer = None, iter_num = 7, best_val_loss = Fin 1, log = [] \<rparr>"

definition example_checkpoint :: checkpoint where
  "example_checkpoint =
     \<lparr> ck_model = Some [(''_orig_mod.head.weight'', [3])],
       ck_optimizer = Some \<lparr>group_sizes = [1], moments = []\<rparr>,
       ck_iter_num = Some 100, ck_best_val_loss = Some (Fin 2) \<rparr>"

section \<open>Learning-rate schedule (train.py)\<close>

text \<open>
  \<open>lr_lambda\<close>, the closure \<open>get_cosine_lr_schedule\<close> hands to \<open>LambdaLR\<close>; the
  floats are read as reals.
\<close>

definition lr_lambda :: "int \<Rightarrow> int \<Rightarrow> real \<Rightarrow> int \<Rightarrow> real" where
  "lr_lambda warmup_iters lr_decay_iters min_lr step =
     (if step < warmup_iters
        then real_of_int step / real_of_int (max 1 warmup_iters)
      else
        (let decay_ratio =
               min 1 (real_of_int (step - warmup_iters)
                        / real_of_int (max 1 (lr_decay_iters - warmup_iters)));
             coeff = 0.5 * (1 + cos (pi * decay_ratio))
         in min_lr + coeff * (1 - min_lr)))"

text \<open>
  The ratio as the specification words it:
  \<open>r = clamp((step - warmup) / (decay_steps - warmup), 0, 1)\<close>, the denominator
  being at least 1 as in the code.
\<close>

definition clamp01 :: "real \<Rightarrow> real" where
  "clamp01 r = max 0 (min 1 r)"

definition decay_ratio_spec :: "int \<Rightarrow> int \<Rightarrow> int \<Rightarrow> real" where
  "decay_ratio_spec warmup_iters lr_decay_iters step =
     clamp01 (real_of_int (step - warmup_iters)
                / real_of_int (max 1 (lr_decay_iters - warmup_iters)))"

section \<open>Generation (train.py)\<close>

text \<open>
  \<open>ModelConfig\<close>, field by field; \<open>dropout\<close> is a float, read as a real.
\<close>

record ModelConfig =
  vocab_size :: int
  block_size :: int
  n_layer :: int
  n_head :: int
  n_embd :: int
  dropout :: real
  bias :: bool

text \<open>
  A logit after filtering is a float or \<open>-inf\<close>: \<open>None\<close> stands for \<open>-inf\<close>, which
  the order on \<open>option\<close> puts below every \<open>Some x\<close>. The trained network is a
  parameter: \<open>net ctx v\<close> is the logit the model gives vocabulary entry \<open>v\<close> after
  the tokens \<open>ctx\<close>.
\<close>

type_synonym logit = "real option"
type_synonym network = "int list \<Rightarrow> nat \<Rightarrow> real"

text \<open>
  \<open>DeltaGPT.forward\<close> on one row of the batch, without targets: it asserts
  \<open>T \<le> block_size\<close>, the token embedding raises on an index outside the vocabulary,
  and the result has one vector of \<open>vocab_size\<close> logits for each position, the one
  at position \<open>t\<close> depending on the tokens up to \<open>t\<close> only (causal attention).
\<close>

definition forward_row :: "ModelConfig \<Rightarrow> network \<Rightarrow> int list \<Rightarrow> py_error + real list list" where
  "forward_row cfg net idx =
     (if block_size cfg < int (length idx) then Inl AssertionError
      else if list_ex (\<lambda>t. t < 0 \<or> vocab_size cfg \<le> t) idx then Inl IndexError
      else Inr (map (\<lambda>t. map (net (take (Suc t) idx)) [0..<nat (vocab_size cfg)])
                  [0..<length idx]))"

text \<open>
  \<open>torch.topk(logits, top_k)\<close>: the \<open>top_k\<close> largest values in descending order; it
  raises when \<open>top_k\<close> is negative or exceeds the size.
\<close>

definition topk_values :: "real list \<Rightarrow> int \<Rightarrow> py_error + real list" where
  "topk_values xs k =
     (if k < 0 \<or> int (length xs) < k then Inl RuntimeError
      else Inr (take (nat k) (rev (sort xs))))"

text \<open>
  \<open>v, _ = torch.topk(logits, top_k); logits[logits < v[:, [-1]]] = -inf\<close>.
\<close>

definition top_k_filter :: "int \<Rightarrow> real list \<Rightarrow> py_error + logit list" where
  "top_k_filter top_k logits =
     (case topk_values logits top_k of
        Inl e \<Rightarrow> Inl e
      | Inr v \<Rightarrow>
          (case py_index v (- 1) of
             Inl e \<Rightarrow> Inl e
           | Inr kth \<Rightarrow> Inr (map (\<lambda>x. if x < kth then None else Some x) logits)))"

text \<open>
  \<open>F.softmax\<close> over logits that may be \<open>-inf\<close>, whose exponential is 0.
\<close>

definition expl :: "logit \<Rightarrow> real" where
  "expl l = (case l of None \<Rightarrow> 0 | Some x \<Rightarrow> exp x)"

definition softmax :: "logit list \<Rightarrow> real list" where
  "softmax ls = map (\<lambda>l. expl l / sum_list (map expl ls)) ls"

text \<open>
  The indices \<open>torch.sort(logits, descending=True)\<close> returns: a permutation of the
  positions that lists the logits in descending order.
\<close>

definition argsort_desc :: "logit list \<Rightarrow> nat list" where
  "argsort_desc ls = rev (sort_key (\<lambda>i. ls ! i) [0..<length ls])"

text \<open>
\<open>torch.cumsum\<close>: the list of partial sums.
\<close>

fun cumsum_from :: "real \<Rightarrow> real list \<Rightarrow> real list" where
  "cumsum_from acc [] = []"
| "cumsum_from acc (x # xs) = (acc + x) # cumsum_from (acc + x) xs"

definition cumsum :: "real list \<Rightarrow> real list" where
  "cumsum xs = cumsum_from 0 xs"

text \<open>
  \<open>self.scatter(1, index, src)\<close>: a copy of \<open>self\<close> in which position \<open>index[j]\<close>
  holds \<open>src[j]\<close>.
\<close>

definition scatter :: "'a list \<Rightarrow> nat list \<Rightarrow> 'a list \<Rightarrow> 'a list" where
  "scatter self index src = fold (\<lambda>(i, v) out. out[i := v]) (zip index src) self"

text \<open>
  The nucleus filter of \<open>generate\<close>. The mask \<open>cumulative_probs > top_p\<close> is shifted
  one place to the right and its first entry cleared (assigning to entry 0 raises on an
  empty vocabulary), scattered back to the original positions, and the masked logits
  become \<open>-inf\<close>.
\<close>

definition top_p_filter :: "real \<Rightarrow> logit list \<Rightarrow> py_error + logit list" where
  "top_p_filter top_p logits =
     (let sorted_indices = argsort_desc logits;
          sorted_logits = map (\<lambda>i. logits ! i) sorted_indices;
          cumulative_probs = cumsum (softmax sorted_logits);
          above = map (\<lambda>c. top_p < c) cumulative_probs
      in if above = [] then Inl IndexError
         else
           (let sorted_indices_to_remove = False # butlast above;
                indices_to_remove =
                  scatter sorted_indices_to_remove sorted_indices sorted_indices_to_remove
            in Inr (map2 (\<lambda>l r. if r then None else l) logits indices_to_remove)))"

text \<open>
  \<open>torch.multinomial(probs, num_samples=1)\<close> draws an index with the given
  probabilities. The randomness is a parameter: for a uniform draw \<open>u\<close> from
  \<open>[0, 1)\<close> the index is the first whose cumulative probability exceeds \<open>u\<close>.
  A distribution whose sum is not positive raises.
\<close>

fun multinomial_index :: "real list \<Rightarrow> real \<Rightarrow> nat" where
  "multinomial_index [] u = 0"
| "multinomial_index [p] u = 0"
| "multinomial_index (p # q # ps) u =
     (if u < p then 0 else Suc (multinomial_index (q # ps) (u - p)))"

definition multinomial :: "real list \<Rightarrow> real \<Rightarrow> py_error + nat" where
  "multinomial probs u =
     (if sum_list probs \<le> 0 then Inl RuntimeError
      else Inr (multinomial_index probs (u * sum_list probs)))"

text \<open>
  One pass of the loop of \<open>DeltaGPT.generate\<close> for one row: crop the context to the
  last \<open>block_size\<close> tokens, run the model, take the logits of the last position,
  divide by the temperature, filter, sample, append. Division by a zero temperature
  has no real value (the floats become \<open>inf\<close> or \<open>nan\<close>, on which
  \<open>torch.multinomial\<close> raises), so the step fails there.
\<close>

definition generate_row_step ::
  "ModelConfig \<Rightarrow> network \<Rightarrow> real \<Rightarrow> int option \<Rightarrow> real option \<Rightarrow> real \<Rightarrow> int list
     \<Rightarrow> py_error + int list" where
  "generate_row_step cfg net temperature top_k top_p u idx =
     (let idx_cond = (if int (length idx) \<le> block_size cfg then idx
                      else py_slice_from idx (- block_size cfg))
      in case forward_row cfg net idx_cond of
           Inl e \<Rightarrow> Inl e
         | Inr all_logits \<Rightarrow>
             (case py_index all_logits (- 1) of
                Inl e \<Rightarrow> Inl e
              | Inr last_logits \<Rightarrow>
                  if temperature = 0 then Inl RuntimeError
                  else
                    (let logits = map (\<lambda>x. x / temperature) last_logits
                     in case (case top_k of None \<Rightarrow> Inr (map Some logits)
                                | Some k \<Rightarrow> top_k_filter k logits) of
                          Inl e \<Rightarrow> Inl e
                        | Inr logits_k \<Rightarrow>
                            (case (case top_p of None \<Rightarrow> Inr logits_k
                                   | Some p \<Rightarrow> top_p_filter p logits_k) of
                               Inl e \<Rightarrow> Inl e
                             | Inr logits_p \<Rightarrow>
                                 (case multinomial (softmax logits_p) u of
                                    Inl e \<Rightarrow> Inl e
                                  | Inr idx_next \<Rightarrow> Inr (idx @ [int idx_next]))))))"

text \<open>
  The rows of a batch are computed independently; the step fails if any row does.
  \<open>us b\<close> is the uniform draw for row \<open>b\<close>.
\<close>

fun collect :: "(py_error + 'a) list \<Rightarrow> py_error + 'a list" where
  "collect [] = Inr []"
| "collect (r # rs) =
     (case r of Inl e \<Rightarrow> Inl e
      | Inr x \<Rightarrow> (case collect rs of Inl e \<Rightarrow> Inl e | Inr xs \<Rightarrow> Inr (x # xs)))"

definition generate_step ::
  "ModelConfig \<Rightarrow> network \<Rightarrow> real \<Rightarrow> int option \<Rightarrow> real option \<Rightarrow> (nat \<Rightarrow> real)
     \<Rightarrow> int list list \<Rightarrow> py_error + int list list" where
  "generate_step cfg net temperature top_k top_p us idx =
     collect (map (\<lambda>b. generate_row_step cfg net temperature top_k top_p (us b) (idx ! b))
                [0..<length idx])"

text \<open>
  \<open>for _ in range(max_new_tokens)\<close>; \<open>rng s b\<close> is the draw of step \<open>s\<close> for row
  \<open>b\<close>. A negative count runs no step.
\<close>

fun generate_loop ::
  "ModelConfig \<Rightarrow> network \<Rightarrow> real \<Rightarrow> int option \<Rightarrow> real option \<Rightarrow> (nat \<Rightarrow> nat \<Rightarrow> real)
     \<Rightarrow> nat \<Rightarrow> nat \<Rightarrow> int list list \<Rightarrow> py_error + int list list" where
  "generate_loop cfg net temperature top_k top_p rng 0 s idx = Inr idx"
| "generate_loop cfg net temperature top_k top_p rng (Suc n) s idx =
     (case generate_step cfg net temperature top_k top_p (rng s) idx of
        Inl e \<Rightarrow> Inl e
      | Inr idx' \<Rightarrow> generate_loop cfg net temperature top_k top_p rng n (Suc s) idx')"

definition generate ::
  "ModelConfig \<Rightarrow> network \<Rightarrow> (nat \<Rightarrow> nat \<Rightarrow> real) \<Rightarrow> int list list \<Rightarrow> int
     \<Rightarrow> real \<Rightarrow> int option \<Rightarrow> real option \<Rightarrow> py_error + int list list" where
  "generate cfg net rng idx max_new_tokens temperature top_k top_p =
     generate_loop cfg net temperature top_k top_p rng (nat max_new_tokens) 0 idx"

text \<open>
  Names for the intermediate tensors of the nucleus filter: \<open>softmax(sorted_logits)\<close>,
  \<open>sorted_indices_to_remove\<close> after the shift, and \<open>indices_to_remove\<close>.
\<close>

definition sorted_probs :: "logit list \<Rightarrow> real list" where
  "sorted_probs logits = softmax (map (\<lambda>i. logits ! i) (argsort_desc logits))"

definition shifted_removal :: "real \<Rightarrow> logit list \<Rightarrow> bool list" where
  "shifted_removal top_p logits =
     False # butlast (map (\<lambda>c. top_p < c) (cumsum (sorted_probs logits)))"

definition removal_mask :: "real \<Rightarrow> logit list \<Rightarrow> bool list" where
  "removal_mask top_p logits =
     scatter (shifted_removal top_p logits) (argsort_desc logits) (shifted_removal top_p logits)"

text \<open>
Every token of a row is a vocabulary index.
\<close>

definition in_vocab :: "ModelConfig \<Rightarrow> int list \<Rightarrow> bool" where
  "in_vocab cfg row = list_all (\<lambda>t. 0 \<le> t \<and> t < vocab_size cfg) row"

text \<open>
A small configuration for concrete runs.
\<close>

definition tiny :: ModelConfig where
  "tiny = \<lparr>vocab_size = 3, block_size = 2, n_layer = 1, n_head = 1, n_embd = 2,
           dropout = 0, bias = False\<rparr>"

section \<open>Model construction (train.py)\<close>

text \<open>
  A model is a tree of modules. A module has a class (\<open>Other\<close> stands for any
  class the repository does not use), the parameters registered on it directly, each
  with its name and shape, and its named submodules in registration order.
\<close>

datatype kind =
    Linear | LayerNorm | Embedding | Dropout | GELU | ModuleList
  | CausalSelfAttention | MLP | Block | DeltaGPT | Other

type_synonym shape = "int list"

datatype module = Module (kind: kind) (own_params: "(string \<times> shape) list")
  (children: "(string \<times> module) list")

text \<open>
  Sequencing of constructor calls: the first exception ends the construction.
\<close>

definition then_do :: "py_error + 'a \<Rightarrow> ('a \<Rightarrow> py_error + 'b) \<Rightarrow> py_error + 'b" where
  "then_do r f = (case r of Inl e \<Rightarrow> Inl e | Inr x \<Rightarrow> f x)"

text \<open>
  The layers of \<open>torch.nn\<close> as the constructors of the repository use them. A tensor
  cannot be allocated with a negative dimension; \<open>nn.Dropout\<close> rejects a probability
  outside \<open>[0, 1]\<close>. A layer built with \<open>bias=False\<close> registers no bias parameter.
\<close>

definition torch_empty :: "shape \<Rightarrow> py_error + shape" where
  "torch_empty sh = (if list_ex (\<lambda>d. d < 0) sh then Inl RuntimeError else Inr sh)"

definition nn_Linear :: "int \<Rightarrow> int \<Rightarrow> bool \<Rightarrow> py_error + module" where
  "nn_Linear in_features out_features with_bias =
     then_do (torch_empty [out_features, in_features]) (\<lambda>w.
     then_do (if with_bias then torch_empty [out_features] else Inr []) (\<lambda>b.
       Inr (Module Linear
              ((''weight'', w) # (if with_bias then [(''bias'', b)] else [])) [])))"

definition nn_LayerNorm :: "int \<Rightarrow> bool \<Rightarrow> py_error + module" where
  "nn_LayerNorm normalized_shape with_bias =
     then_do (torch_empty [normalized_shape]) (\<lambda>w.
       Inr (Module LayerNorm
              ((''weight'', w) # (if with_bias then [(''bias'', w)] else [])) []))"

definition nn_Embedding :: "int \<Rightarrow> int \<Rightarrow> py_error + module" where
  "nn_Embedding num_embeddings embedding_dim =
     then_do (torch_empty [num_embeddings, embedding_dim]) (\<lambda>w.
       Inr (Module Embedding [(''weight'', w)] []))"

definition nn_Dropout :: "real \<Rightarrow> py_error + module" where
  "nn_Dropout p = (if p < 0 \<or> 1 < p then Inl ValueError else Inr (Module Dropout [] []))"

definition nn_GELU :: module where
  "nn_GELU = Module GELU [] []"

text \<open>
  \<open>nn.ModuleList\<close> names its entries \<open>str(0)\<close>, \<open>str(1)\<close>, ...: the decimal numeral.
\<close>

definition digit_char :: "nat \<Rightarrow> char" where
  "digit_char d = ''0123456789'' ! d"

fun str_nat :: "nat \<Rightarrow> string" where
  "str_nat n = (if n < 10 then [digit_char n] else str_nat (n div 10) @ [digit_char (n mod 10)])"

declare str_nat.simps [simp del]

definition nn_ModuleList :: "module list \<Rightarrow> module" where
  "nn_ModuleList ms = Module ModuleList [] (zip (map str_nat [0..<length ms]) ms)"

text \<open>
  \<open>CausalSelfAttention.__init__\<close>. The assertion \<open>n_embd % n_head == 0\<close> comes first;
  with \<open>n_head = 0\<close> the remainder itself raises. \<open>flash\<close> says whether
  \<open>scaled_dot_product_attention\<close> exists in the installed library; without it the
  causal mask is allocated as a buffer (a buffer is not a parameter).
\<close>

definition CausalSelfAttention_init :: "bool \<Rightarrow> ModelConfig \<Rightarrow> py_error + module" where
  "CausalSelfAttention_init flash config =
     (if n_head config = 0 then Inl ZeroDivisionError
      else if n_embd config mod n_head config \<noteq> 0 then Inl AssertionError
      else
        then_do (nn_Linear (n_embd config) (3 * n_embd config) (bias config)) (\<lambda>c_attn.
        then_do (nn_Linear (n_embd config) (n_embd config) (bias config)) (\<lambda>c_proj.
        then_do (nn_Dropout (dropout config)) (\<lambda>attn_dropout.
        then_do (nn_Dropout (dropout config)) (\<lambda>resid_dropout.
        then_do (if flash then Inr []
                 else torch_empty [block_size config, block_size config]) (\<lambda>mask.
          Inr (Module CausalSelfAttention []
                 [(''c_attn'', c_attn), (''c_proj'', c_proj),
                  (''attn_dropout'', attn_dropout),
                  (''resid_dropout'', resid_dropout)])))))))"

text \<open>
\<open>MLP.__init__\<close> and \<open>Block.__init__\<close>, in the order of their statements.
\<close>

definition MLP_init :: "ModelConfig \<Rightarrow> py_error + module" where
  "MLP_init config =
     then_do (nn_Linear (n_embd config) (4 * n_embd config) (bias config)) (\<lambda>c_fc.
     then_do (nn_Linear (4 * n_embd config) (n_embd config) (bias config)) (\<lambda>c_proj.
     then_do (nn_Dropout (dropout config)) (\<lambda>drop.
       Inr (Module MLP []
              [(''c_fc'', c_fc), (''gelu'', nn_GELU), (''c_proj'', c_proj),
               (''dropout'', drop)]))))"

definition Block_init :: "bool \<Rightarrow> ModelConfig \<Rightarrow> py_error + module" where
  "Block_init flash config =
     then_do (nn_LayerNorm (n_embd config) (bias config)) (\<lambda>ln_1.
     then_do (CausalSelfAttention_init flash config) (\<lambda>attn.
     then_do (nn_LayerNorm (n_embd config) (bias config)) (\<lambda>ln_2.
     then_do (MLP_init config) (\<lambda>mlp.
       Inr (Module Block []
              [(''ln_1'', ln_1), (''attn'', attn), (''ln_2'', ln_2), (''mlp'', mlp)])))))"

text \<open>
  \<open>DeltaGPT.__init__\<close>: one \<open>Block(config)\<close> for each index of
  \<open>range(config.n_layer)\<close>, none when \<open>n_layer \<le> 0\<close>.
\<close>

definition DeltaGPT_init :: "bool \<Rightarrow> ModelConfig \<Rightarrow> py_error + module" where
  "DeltaGPT_init flash config =
     then_do (nn_Embedding (vocab_size config) (n_embd config)) (\<lambda>tok_emb.
     then_do (nn_Embedding (block_size config) (n_embd config)) (\<lambda>pos_emb.
     then_do (nn_Dropout (dropout config)) (\<lambda>drop.
     then_do (collect (map (\<lambda>_. Block_init flash config) [0..<nat (n_layer config)])) (\<lambda>blocks.
     then_do (nn_LayerNorm (n_embd config) (bias config)) (\<lambda>ln_f.
     then_do (nn_Linear (n_embd config) (vocab_size config) False) (\<lambda>head.
       Inr (Module DeltaGPT []
              [(''tok_emb'', tok_emb), (''pos_emb'', pos_emb), (''drop'', drop),
               (''blocks'', nn_ModuleList blocks), (''ln_f'', ln_f),
               (''head'', head)])))))))"

section \<open>Optimizer parameter groups (train.py)\<close>

text \<open>
  \<open>Module.named_modules\<close> and \<open>Module.named_parameters\<close>: a module is listed under
  its prefix before its submodules, a submodule under
  \<open>prefix + ("." if prefix else "") + name\<close>, and the parameters of every listed
  module under the module's name joined with their own in the same way.
\<close>

definition join_name :: "string \<Rightarrow> string \<Rightarrow> string" where
  "join_name prefix name = prefix @ (if prefix = [] then [] else ''.'') @ name"

fun named_modules :: "string \<Rightarrow> module \<Rightarrow> (string \<times> module) list"
  and named_children :: "string \<Rightarrow> (string \<times> module) list \<Rightarrow> (string \<times> module) list" where
  "named_modules prefix (Module k ps cs) = (prefix, Module k ps cs) # named_children prefix cs"
| "named_children prefix [] = []"
| "named_children prefix ((name, c) # cs) =
     named_modules (join_name prefix name) c @ named_children prefix cs"

definition named_parameters :: "module \<Rightarrow> (string \<times> shape) list" where
  "named_parameters m =
     concat (map (\<lambda>(module_prefix, sub).
                    map (\<lambda>(k, v). (join_name module_prefix k, v)) (own_params sub))
               (named_modules [] m))"

text \<open>
  \<open>str.endswith\<close>, \<open>isinstance\<close>, and the \<open>if\<close>/\<open>elif\<close> chain of
  \<open>configure_optimizers\<close> that decides the set a parameter name goes to.
\<close>

definition endswith :: "string \<Rightarrow> string \<Rightarrow> bool" where
  "endswith s suffix =
     (length suffix \<le> length s \<and> drop (length s - length suffix) s = suffix)"

definition isinstance :: "module \<Rightarrow> kind list \<Rightarrow> bool" where
  "isinstance m classes = (kind m \<in> set classes)"

datatype decay_class = ToDecay | ToNoDecay | Unclassified

definition classify_param :: "module \<Rightarrow> string \<Rightarrow> decay_class" where
  "classify_param m pn =
     (if endswith pn ''bias'' then ToNoDecay
      else if endswith pn ''weight'' \<and> isinstance m [Linear] then ToDecay
      else if endswith pn ''weight'' \<and> isinstance m [LayerNorm, Embedding] then ToNoDecay
      else Unclassified)"

text \<open>
  The two nested loops of \<open>configure_optimizers\<close>: for every module \<open>(mn, m)\<close> of
  \<open>named_modules()\<close> and every parameter \<open>(pn, p)\<close> of \<open>m.named_parameters()\<close>,
  the full name \<open>fpn\<close> and the decision. \<open>decay\<close> and \<open>no_decay\<close> are the sets of
  the names decided either way.
\<close>

definition loop_items :: "module \<Rightarrow> (string \<times> decay_class) list" where
  "loop_items gpt =
     concat (map (\<lambda>(mn, m).
                    map (\<lambda>(pn, p). (join_name mn pn, classify_param m pn)) (named_parameters m))
               (named_modules [] gpt))"

definition decay_names :: "module \<Rightarrow> string list" where
  "decay_names gpt = map fst (filter (\<lambda>(fpn, c). c = ToDecay) (loop_items gpt))"

definition no_decay_names :: "module \<Rightarrow> string list" where
  "no_decay_names gpt = map fst (filter (\<lambda>(fpn, c). c = ToNoDecay) (loop_items gpt))"

text \<open>
  \<open>torch.optim.AdamW\<close> takes the parameter groups and checks the learning rate and
  the two betas; it refuses an empty list of groups and does not check the weight
  decay a group brings.
\<close>

record param_group =
  params :: "shape list"
  weight_decay :: real

record AdamW =
  param_groups :: "param_group list"
  lr :: real
  betas :: "real \<times> real"

definition torch_AdamW :: "param_group list \<Rightarrow> real \<Rightarrow> real \<times> real \<Rightarrow> py_error + AdamW" where
  "torch_AdamW groups learning_rate beta =
     (if groups = [] \<or> learning_rate < 0 \<or> fst beta < 0 \<or> 1 \<le> fst beta
         \<or> snd beta < 0 \<or> 1 \<le> snd beta
      then Inl ValueError
      else Inr \<lparr>param_groups = groups, lr = learning_rate, betas = beta\<rparr>)"

text \<open>
  \<open>param_dict[pn]\<close>; in a dictionary built from pairs the last pair of a key wins.
\<close>

definition dict_lookup :: "(string \<times> 'v) list \<Rightarrow> string \<Rightarrow> py_error + 'v" where
  "dict_lookup d k = (case map_of (rev d) k of None \<Rightarrow> Inl KeyError | Some v \<Rightarrow> Inr v)"

text \<open>
  \<open>DeltaGPT.configure_optimizers\<close>: the two assertions, then the two groups, each
  listing the parameters of its names in sorted order.
\<close>

definition configure_optimizers ::
  "module \<Rightarrow> real \<Rightarrow> real \<Rightarrow> real \<times> real \<Rightarrow> py_error + AdamW" where
  "configure_optimizers gpt wd learning_rate beta =
     (let decay = decay_names gpt;
          no_decay = no_decay_names gpt;
          param_dict = named_parameters gpt;
          inter_params = filter (\<lambda>pn. pn \<in> set no_decay) decay;
          unseparated = filter (\<lambda>pn. pn \<notin> set decay \<union> set no_decay) (map fst param_dict)
      in if inter_params \<noteq> [] then Inl AssertionError
         else if unseparated \<noteq> [] then Inl AssertionError
         else
           then_do (collect (map (dict_lookup param_dict) (sort (remdups decay))))
             (\<lambda>decay_params.
           then_do (collect (map (dict_lookup param_dict) (sort (remdups no_decay))))
             (\<lambda>no_decay_params.
               torch_AdamW [\<lparr>params = decay_params, weight_decay = wd\<rparr>,
                            \<lparr>params = no_decay_params, weight_decay = 0\<rparr>]
                 learning_rate beta)))"

text \<open>
  Invariants of the models \<open>DeltaGPT_init\<close> builds, used in the proofs: a layer with
  parameters has no submodules and only parameters named \<open>weight\<close> and \<open>bias\<close>, any
  other module has no parameters of its own, no attribute name is empty, and the last
  character of an attribute name tells a linear layer (\<open>c_attn\<close>, \<open>c_proj\<close>,
  \<open>c_fc\<close>, \<open>head\<close>) from a normalisation or embedding layer (\<open>ln_1\<close>, \<open>ln_2\<close>,
  \<open>ln_f\<close>, \<open>tok_emb\<close>, \<open>pos_emb\<close>).
\<close>

definition name_fits :: "string \<Rightarrow> kind \<Rightarrow> bool" where
  "name_fits n k =
     ((k = Linear \<longrightarrow> last n \<in> {CHR ''n'', CHR ''j'', CHR ''c'', CHR ''d''})
      \<and> (k \<in> {LayerNorm, Embedding} \<longrightarrow> last n \<in> {CHR ''1'', CHR ''2'', CHR ''f'', CHR ''b''}))"

definition params_fit :: "module \<Rightarrow> bool" where
  "params_fit m =
     (if kind m \<in> {Linear, LayerNorm, Embedding}
      then children m = [] \<and> set (map fst (own_params m)) \<subseteq> {''weight'', ''bias''}
      else own_params m = [])"

fun wf_module :: "module \<Rightarrow> bool" and wf_children :: "(string \<times> module) list \<Rightarrow> bool" where
  "wf_module (Module k ps cs) = (params_fit (Module k ps cs) \<and> wf_children cs)"
| "wf_children [] = True"
| "wf_children ((n, c) # cs) =
     (n \<noteq> [] \<and> name_fits n (kind c) \<and> wf_module c \<and> wf_children cs)"

text \<open>
The name of a module of a subtree, seen from the prefix of the subtree.
\<close>

definition under :: "string \<Rightarrow> string \<Rightarrow> string" where
  "under prefix n = (if n = [] then prefix else join_name prefix n)"

text \<open>
  A one-layer configuration with biases, and a model with a layer class the
  classification does not know.
\<close>

definition tiny1 :: ModelConfig where
  "tiny1 = \<lparr>vocab_size = 5, block_size = 4, n_layer = 1, n_head = 2, n_embd = 4,
           dropout = 0, bias = True\<rparr>"

definition unknown_layer_model :: module where
  "unknown_layer_model =
     Module DeltaGPT []
       [(''head'', Module Linear [(''weight'', [5, 4])] []),
        (''conv'', Module Other [(''weight'', [4, 4, 3])] [])]"

text \<open>
  The embedding width is evenly divisible by the head count; and the configurations
  whose sizes and dropout probability the tensor library accepts.
\<close>

definition evenly_divisible :: "int \<Rightarrow> int \<Rightarrow> bool" where
  "evenly_divisible width heads = (heads \<noteq> 0 \<and> width mod heads = 0)"

definition library_accepts :: "ModelConfig \<Rightarrow> bool" where
  "library_accepts config =
     (0 \<le> vocab_size config \<and> 0 \<le> block_size config \<and> 0 \<le> n_embd config
      \<and> 0 \<le> dropout config \<and> dropout config \<le> 1)"

text \<open>
A configuration without layers whose width is not divisible by its head count.
\<close>

definition no_layer_config :: ModelConfig where
  "no_layer_config = \<lparr>vocab_size = 5, block_size = 4, n_layer = 0, n_head = 3, n_embd = 4,
           dropout = 0, bias = False\<rparr>"

section \<open>Properties\<close>

subsection \<open>Helper facts on Python slices\<close>

lemma length_pad_or_truncate:
  assumes "0 \<le> bsz"
  shows "length (pad_or_truncate bsz toks) = nat bsz"
  using assms by (auto simp: pad_or_truncate_def py_slice_to_def)

lemma py_slice_to_minus_one: "py_slice_to xs (- 1) = butlast xs"
  by (simp add: py_slice_to_def butlast_conv_take)

lemma py_slice_from_one: "py_slice_from xs 1 = drop 1 xs"
  by (simp add: py_slice_from_def)

subsection \<open>C10: the pair returned by the dataset\<close>

text \<open>
  Claim C10. For every valid index (Python accepts \<open>-len \<le> idx < len\<close>) and a block
  size of at least 1, \<open>CommandDataset.__getitem__\<close> returns a pair \<open>(x, y)\<close> of
  sequences of length \<open>block_size - 1\<close> each: with the stored token list truncated
  or zero-padded to exactly \<open>block_size\<close> tokens, \<open>x\<close> is the first
  \<open>block_size - 1\<close> of them and \<open>y\<close> the last \<open>block_size - 1\<close>, so
  \<open>y[i] = x[i+1]\<close> for every \<open>i < block_size - 2\<close>.
\<close>

theorem getitem_shifted_pair:
  assumes bs: "1 \<le> bsz"
    and idx: "- int (length data) \<le> idx" "idx < int (length data)"
  shows "\<exists>it x y p.
           py_index data idx = Inr it
         \<and> p = pad_or_truncate bsz (tokens it)
         \<and> length p = nat bsz
         \<and> p = (if int (length (tokens it)) > bsz
                  then take (nat bsz) (tokens it)
                  else tokens it @ replicate (nat bsz - length (tokens it)) 0)
         \<and> getitem data bsz idx = Inr (x, y)
         \<and> length x = nat (bsz - 1)
         \<and> length y = nat (bsz - 1)
         \<and> x = take (nat (bsz - 1)) p
         \<and> y = drop (length p - nat (bsz - 1)) p
         \<and> (\<forall>i. int i < bsz - 2 \<longrightarrow> y ! i = x ! (i + 1))"
proof -
  have "\<exists>it. py_index data idx = Inr it"
    using idx by (cases "idx < 0") (simp_all add: py_index_def)
  then obtain it where it: "py_index data idx = Inr it" ..
  define p where "p = pad_or_truncate bsz (tokens it)"
  have lp: "length p = nat bsz"
    using bs by (simp add: p_def length_pad_or_truncate)
  have shape: "p = (if int (length (tokens it)) > bsz
                  then take (nat bsz) (tokens it)
                  else tokens it @ replicate (nat bsz - length (tokens it)) 0)"
    using bs by (auto simp: p_def pad_or_truncate_def py_slice_to_def nat_diff_distrib')
  have g: "getitem data bsz idx = Inr (butlast p, drop 1 p)"
    by (simp add: getitem_def it p_def py_slice_to_minus_one py_slice_from_one Let_def)
  have lx: "length (butlast p) = nat (bsz - 1)"
    using lp bs by (simp add: nat_diff_distrib')
  have ly: "length (drop 1 p) = nat (bsz - 1)"
    using lp bs by (simp add: nat_diff_distrib')
  have xt: "butlast p = take (nat (bsz - 1)) p"
    using lp bs by (simp add: butlast_conv_take nat_diff_distrib')
  have yd: "drop 1 p = drop (length p - nat (bsz - 1)) p"
    using lp bs by (simp add: nat_diff_distrib')
  have sh: "\<forall>i. int i < bsz - 2 \<longrightarrow> drop 1 p ! i = butlast p ! (i + 1)"
  proof (intro allI impI)
    fix i assume i: "int i < bsz - 2"
    then have "i + 1 < length (butlast p)" using lp by simp
    then have "butlast p ! (i + 1) = p ! (i + 1)" by (rule nth_butlast)
    moreover have "drop 1 p ! i = p ! (i + 1)" using i lp by simp
    ultimately show "drop 1 p ! i = butlast p ! (i + 1)" by simp
  qed
  show ?thesis
    using it lp shape g lx ly xt yd sh unfolding p_def by blast
qed

theorem getitem_shifted_pair_witness:
  "getitem [\<lparr>tokens = [5, 6], command = ''ls'', exit_code = 0\<rparr>] 4 0
     = Inr ([5, 6, 0], [6, 0, 0])
   \<and> getitem [\<lparr>tokens = [5, 6, 7, 8, 9], command = ''ls'', exit_code = 0\<rparr>] 4 (- 1)
     = Inr ([5, 6, 7], [6, 7, 8])"
proof -
  have a: "\<exists>it x y p. py_index [\<lparr>tokens = [5, 6], command = ''ls'', exit_code = 0\<rparr>] 0 = Inr it
         \<and> p = pad_or_truncate 4 (tokens it) \<and> length p = nat 4
         \<and> p = (if int (length (tokens it)) > 4 then take (nat 4) (tokens it)
                  else tokens it @ replicate (nat 4 - length (tokens it)) 0)
         \<and> getitem [\<lparr>tokens = [5, 6], command = ''ls'', exit_code = 0\<rparr>] 4 0 = Inr (x, y)
         \<and> length x = nat (4 - 1) \<and> length y = nat (4 - 1)
         \<and> x = take (nat (4 - 1)) p \<and> y = drop (length p - nat (4 - 1)) p
         \<and> (\<forall>i. int i < 4 - 2 \<longrightarrow> y ! i = x ! (i + 1))"
    by (rule getitem_shifted_pair) simp_all
  show ?thesis
    using a
    by (simp add: getitem_def py_index_def pad_or_truncate_def py_slice_to_def
        py_slice_from_def numeral_2_eq_2)
qed

subsection \<open>C7: gradient accumulation under a process group\<close>

text \<open>
  Claim C7. When the trainer is launched distributed with world size \<open>W > 1\<close>,
  \<open>setup_distributed\<close> succeeds and replaces the configured
  \<open>gradient_accumulation_steps a\<close> by \<open>floor (a / W)\<close>, and by 1 where that is
  below 1; it is the one assignment of the setup, applied to the configured value,
  and no other field of the configuration changes.
\<close>

theorem setup_distributed_rescales_accumulation:
  assumes "rank_set env" and "1 < group_world_size env"
  shows "\<exists>s. setup_distributed env tc = Inr s
           \<and> world_size s = group_world_size env
           \<and> gradient_accumulation_steps (train_config s)
               = max 1 (gradient_accumulation_steps tc div group_world_size env)
           \<and> gradient_accumulation_steps (train_config s)
               = max 1 \<lfloor>real_of_int (gradient_accumulation_steps tc)
                          / real_of_int (group_world_size env)\<rfloor>
           \<and> train_config s
               = tc\<lparr>gradient_accumulation_steps :=
                      gradient_accumulation_steps (train_config s)\<rparr>"
  using assms
  by (auto simp: setup_distributed_def Let_def floor_divide_of_int_eq max_def)

theorem setup_distributed_rescales_accumulation_witness:
  "gradient_accumulation_steps (train_config (projr (setup_distributed
      \<lparr>rank_set = True, local_rank_var = Some 1, group_rank = 1,
       group_world_size = 3, cuda_available = True\<rparr>
      \<lparr>gradient_accumulation_steps = 8, eval_iters = 20, init_from = ''scratch'',
       resume_checkpoint = None\<rparr>))) = 2
   \<and> gradient_accumulation_steps (train_config (projr (setup_distributed
      \<lparr>rank_set = True, local_rank_var = None, group_rank = 0,
       group_world_size = 4, cuda_available = True\<rparr>
      \<lparr>gradient_accumulation_steps = 1, eval_iters = 20, init_from = ''scratch'',
       resume_checkpoint = None\<rparr>))) = 1"
  using setup_distributed_rescales_accumulation
    [of "\<lparr>rank_set = True, local_rank_var = Some 1, group_rank = 1,
          group_world_size = 3, cuda_available = True\<rparr>"
        "\<lparr>gradient_accumulation_steps = 8, eval_iters = 20, init_from = ''scratch'',
          resume_checkpoint = None\<rparr>"]
  by (simp add: setup_distributed_def Let_def)

subsection \<open>C9: a checkpoint that fails to load\<close>

text \<open>
  Claim C9. \<open>Trainer.load_checkpoint\<close> never lets an exception out, and whenever
  anything in its \<open>try\<close> block raises, it returns with the error logged, the
  iteration counter at 0 and the best validation loss at infinity.
\<close>

theorem load_checkpoint_failure_is_fresh_run:
  "(\<exists>t'. load_checkpoint torch_load t = Inr t')
   \<and> (\<forall>e. snd (load_checkpoint_try torch_load (announce_load t)) = Some e \<longrightarrow>
        (\<exists>t'. load_checkpoint torch_load t = Inr t' \<and> iter_num t' = 0
            \<and> best_val_loss t' = PosInf \<and> last (log t') = LogError e))"
  by (cases "load_checkpoint_try torch_load (announce_load t)")
     (auto simp: load_checkpoint_def split: option.splits)

lemma load_example_checkpoint:
  "load_checkpoint_try (\<lambda>p. Inr example_checkpoint) (announce_load example_trainer)
     = ((announce_load example_trainer)\<lparr>model_params := [(''head.weight'', [3])]\<rparr>,
        Some AttributeError)"
  by (simp add: load_checkpoint_try_def announce_load_def example_trainer_def
      example_checkpoint_def startswith_def unwanted_prefix_def dict_pop_def
      load_state_dict_def)

theorem load_checkpoint_failure_is_fresh_run_witness:
  "snd (load_checkpoint_try (\<lambda>p. Inr example_checkpoint) (announce_load example_trainer))
      = Some AttributeError
   \<and> (\<exists>t'. load_checkpoint (\<lambda>p. Inr example_checkpoint) example_trainer = Inr t'
         \<and> iter_num t' = 0 \<and> best_val_loss t' = PosInf
         \<and> last (log t') = LogError AttributeError)"
  using load_checkpoint_failure_is_fresh_run
    [of "\<lambda>p. Inr example_checkpoint" example_trainer]
  by (simp add: load_example_checkpoint)

subsection \<open>C8: what rank 0 reports as the validation loss\<close>

lemma sum_list_map2_add:
  "length xs = length ys \<Longrightarrow> sum_list (map2 (+) xs ys) = sum_list xs + sum_list (ys :: real list)"
proof (induction xs arbitrary: ys)
  case Nil
  then show ?case by simp
next
  case (Cons a xs)
  then show ?case by (cases ys) auto
qed

lemma reduce_sum_total:
  assumes "ts \<noteq> []" and "\<forall>t \<in> set ts. length t = n"
  shows "\<exists>s. reduce_sum ts = Inr s \<and> length s = n
            \<and> sum_list s = sum_list (map sum_list ts)"
  using assms
proof (induction ts rule: reduce_sum.induct)
  case 1
  then show ?case by simp
next
  case (2 t)
  then show ?case by simp
next
  case (3 t u us)
  then obtain s where s: "reduce_sum (u # us) = Inr s" "length s = n"
     "sum_list s = sum_list (map sum_list (u # us))" by auto
  have lt: "length t = n" using 3 by simp
  then have "sum_list (map2 (+) t s) = sum_list t + sum_list s"
    using s(2) by (simp add: sum_list_map2_add)
  then show ?case using s lt by simp
qed

text \<open>
  With \<open>W\<close> ranks of \<open>n \<ge> 1\<close> batches each, rank 0 returns the cross-replica average
  divided once more by \<open>n\<close>: the reduced tensor is divided by \<open>W * n\<close> and then
  averaged over its \<open>n\<close> entries.
\<close>

lemma evaluate_rank0_value:
  assumes w: "w = int (length batch_losses)" and ne: "batch_losses \<noteq> []"
    and n: "\<forall>ls \<in> set batch_losses. length ls = n" and n0: "0 < n"
    and ev: "int n \<le> n_eval"
  shows "evaluate True w n_eval 0 batch_losses
           = Inr (Fin (cross_replica_average batch_losses / real n))"
proof -
  have loc: "map (local_val_losses n_eval) batch_losses = batch_losses"
    using n ev by (auto simp: local_val_losses_def map_idI)
  have h: "length (batch_losses ! 0) = n" using n ne by (cases batch_losses) auto
  have loc0: "local_val_losses n_eval (batch_losses ! 0) = batch_losses ! 0"
    using h ev by (simp add: local_val_losses_def)
  obtain s where s: "reduce_sum batch_losses = Inr s" "length s = n"
     "sum_list s = sum_list (map sum_list batch_losses)"
    using reduce_sum_total[OF ne n] by blast
  have cnt: "sum_list (map length batch_losses) = length batch_losses * n"
    using n by (induction batch_losses) auto
  have sm: "sum_list (map (\<lambda>v. v / c) s) = sum_list s / c" for c :: real
    by (induction s) (auto simp: add_divide_distrib)
  have "s \<noteq> []" using s(2) n0 by auto
  then show ?thesis
    using ne s h n0 w
    by (simp add: evaluate_def loc loc0 Let_def py_mean_def sm
        cross_replica_average_def cnt)
qed

text \<open>
  Claim C8 says that the value \<open>evaluate\<close> returns on rank 0 is the cross-replica
  average of the per-batch validation losses. With two ranks that each measure the
  losses 4 and 4 on two batches, that average is 4, and rank 0 returns 2.
\<close>

theorem evaluate_rank0_halves_average:
  "evaluate True 2 20 0 [[4, 4], [4, 4]] = Inr (Fin 2)
   \<and> cross_replica_average [[4, 4], [4, 4]] = 4"
  by (simp add: evaluate_def local_val_losses_def py_mean_def Let_def
      cross_replica_average_def)

subsection \<open>C4: the learning-rate multiplier\<close>

lemma decay_ratio_spec_mono:
  assumes "s1 \<le> s2"
  shows "decay_ratio_spec w d s1 \<le> decay_ratio_spec w d s2"
proof -
  have "real_of_int (s1 - w) / real_of_int (max 1 (d - w))
          \<le> real_of_int (s2 - w) / real_of_int (max 1 (d - w))"
    using assms by (intro divide_right_mono) auto
  then show ?thesis unfolding decay_ratio_spec_def clamp01_def by auto
qed

lemma decay_ratio_spec_range:
  "0 \<le> decay_ratio_spec w d s \<and> decay_ratio_spec w d s \<le> 1"
  by (auto simp: decay_ratio_spec_def clamp01_def)

lemma lr_lambda_after_warmup:
  assumes "w \<le> s"
  shows "lr_lambda w d m s
           = m + 0.5 * (1 + cos (pi * decay_ratio_spec w d s)) * (1 - m)"
proof -
  have "0 \<le> real_of_int (s - w) / real_of_int (max 1 (d - w))" using assms by simp
  then have "min 1 (real_of_int (s - w) / real_of_int (max 1 (d - w)))
               = decay_ratio_spec w d s"
    unfolding decay_ratio_spec_def clamp01_def by auto
  then show ?thesis using assms by (simp add: lr_lambda_def Let_def)
qed

lemma lr_lambda_antimono:
  assumes "m \<le> 1" and "w \<le> s1" and "s1 \<le> s2"
  shows "lr_lambda w d m s2 \<le> lr_lambda w d m s1"
proof -
  let ?r1 = "decay_ratio_spec w d s1" and ?r2 = "decay_ratio_spec w d s2"
  have r: "?r1 \<le> ?r2" using assms by (intro decay_ratio_spec_mono) auto
  have "cos (pi * ?r2) \<le> cos (pi * ?r1)"
  proof (rule cos_monotone_0_pi_le)
    show "0 \<le> pi * ?r1" using decay_ratio_spec_range[of w d s1] by simp
    show "pi * ?r1 \<le> pi * ?r2" using r by simp
    show "pi * ?r2 \<le> pi"
      using decay_ratio_spec_range[of w d s2] by (simp add: mult_left_le)
  qed
  then have "0.5 * (1 + cos (pi * ?r2)) * (1 - m) \<le> 0.5 * (1 + cos (pi * ?r1)) * (1 - m)"
    using assms(1) by (intro mult_right_mono) auto
  then show ?thesis using assms by (simp add: lr_lambda_after_warmup)
qed

text \<open>
  Claim C4 as stated has the multiplier non-increasing after warmup for every
  schedule. With \<open>min_lr = 2\<close>, 10 warmup steps and a decay window of 100 the
  multiplier is 1 at step 10 and 2 at step 100.
\<close>

theorem lr_lambda_increases_counterexample:
  "(10::int) \<le> 10 \<and> (10::int) \<le> 100
   \<and> lr_lambda 10 100 2 10 = 1 \<and> lr_lambda 10 100 2 100 = 2
   \<and> \<not> lr_lambda 10 100 2 100 \<le> lr_lambda 10 100 2 10"
  by (simp add: lr_lambda_def Let_def)

text \<open>
  Claim C4, amended. With \<open>warmup_iters > 0\<close> the multiplier at step 0 is 0; from
  \<open>warmup_iters\<close> on it is \<open>min_lr + 0.5 * (1 + cos (pi * r)) * (1 - min_lr)\<close> with
  \<open>r\<close> the decay ratio clamped to \<open>[0, 1]\<close>; and provided \<open>min_lr \<le> 1\<close> it is
  non-increasing: for steps \<open>s2 \<ge> s1 \<ge> warmup_iters\<close> the multiplier at \<open>s2\<close> is at
  most the one at \<open>s1\<close>.
\<close>

theorem lr_lambda_schedule:
  "(0 < w \<longrightarrow> lr_lambda w d m 0 = 0)
   \<and> (w \<le> s1 \<longrightarrow>
        lr_lambda w d m s1 = m + 0.5 * (1 + cos (pi * decay_ratio_spec w d s1)) * (1 - m)
        \<and> 0 \<le> decay_ratio_spec w d s1 \<and> decay_ratio_spec w d s1 \<le> 1)
   \<and> (m \<le> 1 \<and> w \<le> s1 \<and> s1 \<le> s2 \<longrightarrow> lr_lambda w d m s2 \<le> lr_lambda w d m s1)"
  using lr_lambda_after_warmup[of w s1 d m] lr_lambda_antimono[of m w s1 s2 d]
    decay_ratio_spec_range[of w d s1]
  by (simp add: lr_lambda_def)

theorem lr_lambda_schedule_witness:
  "(0::int) < 10 \<and> lr_lambda 10 100 (1/10) 0 = 0
   \<and> (10::int) \<le> 10 \<and> (10::int) \<le> 100 \<and> (1/10::real) \<le> 1
   \<and> lr_lambda 10 100 (1/10) 10 = 1
   \<and> lr_lambda 10 100 (1/10) 100 = 1/10
   \<and> lr_lambda 10 100 (1/10) 100 \<le> lr_lambda 10 100 (1/10) 10"
  using lr_lambda_schedule[of 10 100 "1/10" 10 100]
  by (simp add: lr_lambda_def Let_def)

subsection \<open>C3: the top-k filter\<close>

lemma top_k_filter_value:
  assumes "1 \<le> K" "K \<le> int (length xs)"
  shows "top_k_filter K xs
           = Inr (map (\<lambda>x. if x < rev (sort xs) ! (nat K - 1) then None else Some x) xs)"
proof -
  have "nat K - 1 < length xs" "nat K \<ge> 1" using assms by auto
  then show ?thesis
    using assms
    by (auto simp: top_k_filter_def topk_values_def py_index_def nat_diff_distrib' 
        simp flip: of_nat_diff)
qed

lemma top_k_filter_too_large:
  "int (length xs) < K \<Longrightarrow> top_k_filter K xs = Inl RuntimeError"
  by (simp add: top_k_filter_def topk_values_def)

lemma length_filter_insort:
  "length (filter P (insort x xs)) = length (filter P (x # xs))"
  by (induction xs) auto

lemma length_filter_sort:
  "length (filter P (sort xs)) = length (filter P xs)"
  by (induction xs) (simp_all add: sort_key_simps length_filter_insort)

lemma sorted_filter_not_less_drop:
  assumes "sorted zs" "m < length zs"
  shows "filter (\<lambda>x. \<not> x < zs ! m) (drop m zs) = drop m (zs :: real list)"
proof (rule filter_True, clarify)
  fix x assume "x \<in> set (drop m zs)" "x < zs ! m"
  then obtain i where i: "i < length zs - m" "x = zs ! (m + i)"
    by (auto simp: in_set_conv_nth)
  have "zs ! m \<le> zs ! (m + i)" using assms i by (simp add: sorted_iff_nth_mono)
  then show False using i \<open>x < zs ! m\<close> by simp
qed

lemma sorted_filter_not_less_take:
  assumes "sorted zs" "m < length zs"
  shows "(filter (\<lambda>x. \<not> x < zs ! m) (take m (zs :: real list)) = [])
           = (m = 0 \<or> zs ! (m - 1) < zs ! m)"
proof (cases m)
  case 0 then show ?thesis by simp
next
  case (Suc j)
  have "(\<forall>x\<in>set (take m zs). x < zs ! m) = (zs ! j < zs ! m)"
  proof
    assume "\<forall>x\<in>set (take m zs). x < zs ! m"
    moreover have "zs ! j \<in> set (take m zs)"
      using assms Suc by (auto simp: in_set_conv_nth intro!: exI[of _ j])
    ultimately show "zs ! j < zs ! m" by blast
  next
    assume a: "zs ! j < zs ! m"
    show "\<forall>x\<in>set (take m zs). x < zs ! m"
    proof
      fix x assume "x \<in> set (take m zs)"
      then obtain i where i: "i < m" "x = zs ! i" using assms
        by (auto simp: in_set_conv_nth)
      have "zs ! i \<le> zs ! j" using assms i Suc by (simp add: sorted_iff_nth_mono)
      then show "x < zs ! m" using a i by simp
    qed
  qed
  then show ?thesis using Suc by (simp add: filter_empty_conv)
qed

lemma count_not_less_kth:
  assumes k: "k < length xs"
  shows "length (filter (\<lambda>x. \<not> x < rev (sort xs) ! k) (xs :: real list))
           = Suc k + length (filter (\<lambda>x. \<not> x < rev (sort xs) ! k)
                               (take (length xs - Suc k) (sort xs)))"
proof -
  let ?zs = "sort xs"
  let ?m = "length xs - Suc k"
  have kth: "rev ?zs ! k = ?zs ! ?m" using k by (simp add: rev_nth)
  have m: "?m < length ?zs" using k by simp
  have "length (filter (\<lambda>x. \<not> x < ?zs ! ?m) xs) = length (filter (\<lambda>x. \<not> x < ?zs ! ?m) ?zs)"
    by (rule length_filter_sort[symmetric])
  also have "\<dots> = length (filter (\<lambda>x. \<not> x < ?zs ! ?m) (take ?m ?zs @ drop ?m ?zs))"
    by simp
  also have "\<dots> = length (filter (\<lambda>x. \<not> x < ?zs ! ?m) (take ?m ?zs)) + length (drop ?m ?zs)"
    unfolding filter_append length_append
    using sorted_filter_not_less_drop[OF sorted_sort m] by simp
  also have "length (drop ?m ?zs) = Suc k" using k by simp
  finally show ?thesis unfolding kth by simp
qed

lemma count_not_less_kth_exact:
  assumes k: "k < length xs"
  shows "(length (filter (\<lambda>x. \<not> x < rev (sort xs) ! k) (xs :: real list)) = Suc k)
           = (Suc k = length xs \<or> rev (sort xs) ! Suc k < rev (sort xs) ! k)"
proof -
  let ?zs = "sort xs"
  let ?m = "length xs - Suc k"
  have kth: "rev ?zs ! k = ?zs ! ?m" using k by (simp add: rev_nth)
  have m: "?m < length ?zs" using k by simp
  have nxt: "rev ?zs ! Suc k = ?zs ! (?m - 1)" if "Suc k < length xs"
    using that by (simp add: rev_nth)
  have c: "length (filter (\<lambda>x. \<not> x < ?zs ! ?m) xs)
             = Suc k + length (filter (\<lambda>x. \<not> x < ?zs ! ?m) (take ?m ?zs))"
    using count_not_less_kth[OF k] unfolding kth .
  have "(length (filter (\<lambda>x. \<not> x < ?zs ! ?m) xs) = Suc k)
          = (filter (\<lambda>x. \<not> x < ?zs ! ?m) (take ?m ?zs) = [])"
    unfolding c by simp
  also have "\<dots> = (?m = 0 \<or> ?zs ! (?m - 1) < ?zs ! ?m)"
    by (rule sorted_filter_not_less_take[OF sorted_sort m])
  also have "\<dots> = (Suc k = length xs \<or> rev ?zs ! Suc k < rev ?zs ! k)"
  proof (cases "Suc k = length xs")
    case True then show ?thesis by simp
  next
    case False
    then have "Suc k < length xs" using k by simp
    then show ?thesis using nxt kth by simp
  qed
  finally show ?thesis unfolding kth .
qed

text \<open>
  Claim C3 as stated bounds the number of surviving logits by \<open>K\<close> for every logit
  vector. Three equal logits all survive \<open>top_k = 1\<close>: none is below the largest.
\<close>

theorem top_k_filter_ties_counterexample:
  "top_k_filter 1 [0, 0, 0] = Inr [Some 0, Some 0, Some 0]
   \<and> length (filter (\<lambda>l. l \<noteq> None) [Some 0, Some 0, Some (0::real)]) = 3
   \<and> \<not> (3::nat) \<le> nat 1"
  by (simp add: top_k_filter_def topk_values_def py_index_def)

text \<open>
  Claim C3, amended. With \<open>top_k = K\<close> active and \<open>K \<ge> 1\<close>: when \<open>K\<close> exceeds the
  number of logits the step raises; otherwise the filter keeps exactly the logits that
  are not below the \<open>K\<close>-th largest value, at least \<open>K\<close> logits remain above
  \<open>-inf\<close>, and exactly \<open>K\<close> remain if and only if \<open>K\<close> is the number of logits or
  the \<open>(K+1)\<close>-th largest logit is strictly below the \<open>K\<close>-th largest. So the
  support has more than \<open>K\<close> entries exactly when the \<open>(K+1)\<close>-th largest logit
  equals the \<open>K\<close>-th.
\<close>

theorem top_k_filter_support:
  assumes "1 \<le> K"
  shows "if int (length logits) < K then top_k_filter K logits = Inl RuntimeError
         else (\<exists>out. top_k_filter K logits = Inr out \<and> length out = length logits
           \<and> out = map (\<lambda>x. if x < rev (sort logits) ! (nat K - 1) then None else Some x)
                      logits
           \<and> nat K \<le> length (filter (\<lambda>l. l \<noteq> None) out)
           \<and> ((length (filter (\<lambda>l. l \<noteq> None) out) = nat K)
                = (K = int (length logits)
                   \<or> rev (sort logits) ! nat K < rev (sort logits) ! (nat K - 1))))"
proof (cases "int (length logits) < K")
  case True
  then show ?thesis by (simp add: top_k_filter_too_large)
next
  case False
  then have le: "K \<le> int (length logits)" by simp
  let ?k = "nat K - 1"
  let ?out = "map (\<lambda>x. if x < rev (sort logits) ! ?k then None else Some x) logits"
  have k: "?k < length logits" and sk: "Suc ?k = nat K" using assms le by auto
  have v: "top_k_filter K logits = Inr ?out" by (rule top_k_filter_value[OF assms le])
  have len: "length ?out = length logits" by simp
  have cnt: "length (filter (\<lambda>l. l \<noteq> None) ?out)
      = length (filter (\<lambda>x. \<not> x < rev (sort logits) ! ?k) logits)"
    by (simp add: filter_map comp_def)
  have ge: "nat K \<le> length (filter (\<lambda>l. l \<noteq> None) ?out)"
    unfolding cnt using count_not_less_kth[OF k] sk by simp
  have ex: "(length (filter (\<lambda>l. l \<noteq> None) ?out) = nat K)
      = (K = int (length logits) \<or> rev (sort logits) ! nat K < rev (sort logits) ! ?k)"
    unfolding cnt using count_not_less_kth_exact[OF k] sk assms le by auto
  have "\<exists>out. top_k_filter K logits = Inr out \<and> length out = length logits
           \<and> out = ?out
           \<and> nat K \<le> length (filter (\<lambda>l. l \<noteq> None) out)
           \<and> ((length (filter (\<lambda>l. l \<noteq> None) out) = nat K)
                = (K = int (length logits)
                   \<or> rev (sort logits) ! nat K < rev (sort logits) ! ?k))"
    using v len ge ex by blast
  then show ?thesis using False by (simp only: if_False)
qed

theorem top_k_filter_support_witness:
  "(1::int) \<le> 2 \<and> \<not> int (length [3, 1, 2 :: real]) < 2
   \<and> top_k_filter 2 [3, 1, 2] = Inr [Some 3, None, Some 2]
   \<and> length (filter (\<lambda>l. l \<noteq> None) [Some 3, None, Some (2::real)]) = nat 2
   \<and> rev (sort [3, 1, 2 :: real]) ! nat 2 < rev (sort [3, 1, 2 :: real]) ! (nat 2 - 1)
   \<and> top_k_filter 2 [2, 1, 1] = Inr [Some 2, Some 1, Some 1]
   \<and> nat 2 < length (filter (\<lambda>l. l \<noteq> None) [Some 2, Some 1, Some (1::real)])
   \<and> rev (sort [2, 1, 1 :: real]) ! nat 2 = rev (sort [2, 1, 1 :: real]) ! (nat 2 - 1)
   \<and> int (length [3, 1, 2 :: real]) < 4
   \<and> top_k_filter 4 [3, 1, 2] = Inl RuntimeError"
  using top_k_filter_support[of 2 "[3, 1, 2]"] top_k_filter_support[of 2 "[2, 1, 1]"]
    top_k_filter_support[of 4 "[3, 1, 2]"]
  by (simp add: top_k_filter_def topk_values_def py_index_def)

subsection \<open>C2: the nucleus filter\<close>

lemma length_scatter [simp]: "length (scatter self index src) = length self"
proof -
  have "length (fold (\<lambda>(i, v) out. out[i := v]) zs self) = length self" for zs :: "(nat \<times> 'a) list"
    by (induction zs arbitrary: self) auto
  then show ?thesis by (simp add: scatter_def)
qed

lemma scatter_Cons: "scatter self (i # index) (v # src) = scatter (self[i := v]) index src"
  by (simp add: scatter_def)

lemma scatter_nth_other:
  "i \<notin> set index \<Longrightarrow> scatter self index src ! i = self ! i"
proof (induction index arbitrary: self src)
  case Nil
  then show ?case by (simp add: scatter_def)
next
  case (Cons a index)
  show ?case
  proof (cases src)
    case Nil
    then show ?thesis by (simp add: scatter_def)
  next
    case (Cons v src')
    then show ?thesis using Cons.prems Cons.IH[of "self[a := v]" src']
      by (simp add: scatter_Cons)
  qed
qed

lemma scatter_nth:
  "distinct index \<Longrightarrow> length index = length src \<Longrightarrow> j < length index
     \<Longrightarrow> index ! j < length self \<Longrightarrow> scatter self index src ! (index ! j) = src ! j"
proof (induction index arbitrary: self src j)
  case Nil
  then show ?case by simp
next
  case (Cons a index)
  then obtain v src' where src: "src = v # src'" by (cases src) auto
  show ?case
  proof (cases j)
    case 0
    then show ?thesis using Cons.prems src
      by (simp add: scatter_Cons scatter_nth_other)
  next
    case (Suc j')
    then show ?thesis using Cons.prems src Cons.IH[of src' j' "self[a := v]"]
      by (simp add: scatter_Cons)
  qed
qed

lemma length_cumsum_from [simp]: "length (cumsum_from acc xs) = length xs"
  by (induction xs arbitrary: acc) auto

lemma cumsum_from_nth:
  "j < length xs \<Longrightarrow> cumsum_from acc xs ! j = acc + sum_list (take (Suc j) xs)"
proof (induction xs arbitrary: acc j)
  case Nil
  then show ?case by simp
next
  case (Cons x xs)
  then show ?case by (cases j) auto
qed

lemma cumsum_nth: "j < length xs \<Longrightarrow> cumsum xs ! j = (\<Sum>t<Suc j. xs ! t)"
proof -
  assume j: "j < length xs"
  have "sum_list (take (Suc j) xs) = (\<Sum>t = 0..<length (take (Suc j) xs). take (Suc j) xs ! t)"
    by (rule sum_list_sum_nth)
  also have "\<dots> = (\<Sum>t<Suc j. xs ! t)"
    using j by (intro sum.cong) (auto simp: min_def)
  finally show ?thesis using j by (simp add: cumsum_def cumsum_from_nth)
qed

lemma argsort_desc_perm:
  "length (argsort_desc ls) = length ls" "distinct (argsort_desc ls)"
  "set (argsort_desc ls) = {..<length ls}"
  by (auto simp: argsort_desc_def)

lemma argsort_desc_sorted:
  assumes "i \<le> j" "j < length ls"
  shows "ls ! (argsort_desc ls ! j) \<le> ls ! (argsort_desc ls ! i)"
proof -
  let ?s = "sort_key (\<lambda>i. ls ! i) [0..<length ls]"
  have s: "sorted (map (\<lambda>i. ls ! i) ?s)" by (rule sorted_sort_key)
  have l: "length ?s = length ls" by simp
  have "map (\<lambda>i. ls ! i) ?s ! (length ls - Suc j) \<le> map (\<lambda>i. ls ! i) ?s ! (length ls - Suc i)"
    using assms l by (intro sorted_nth_mono[OF s]) auto
  then show ?thesis using assms l by (simp add: argsort_desc_def rev_nth)
qed

lemma expl_nonneg [simp]: "0 \<le> expl l"
  by (simp add: expl_def split: option.split)

lemma expl_pos_iff [simp]: "0 < expl l \<longleftrightarrow> l \<noteq> None"
  by (simp add: expl_def split: option.split)

lemma sum_list_expl_pos:
  assumes "Some x \<in> set ls"
  shows "0 < sum_list (map expl ls)"
proof -
  have "expl (Some x) \<le> sum_list (map expl ls)"
    using assms by (intro member_le_sum_list) auto
  moreover have "0 < expl (Some x)" by (simp add: expl_def)
  ultimately show ?thesis by linarith
qed

lemma sum_list_perm_index:
  assumes "distinct s" "set s = {..<length xs}"
  shows "sum_list (map (\<lambda>i. f (xs ! i)) s) = (sum_list (map f xs) :: real)"
proof -
  have a: "sum_list (map (\<lambda>i. f (xs ! i)) s) = (\<Sum>i\<in>set s. f (xs ! i))"
    using assms(1) by (rule sum_list_distinct_conv_sum_set)
  have b: "sum_list (map f xs) = (\<Sum>i = 0..<length (map f xs). map f xs ! i)"
    by (rule sum_list_sum_nth)
  have c: "(\<Sum>i = 0..<length (map f xs). map f xs ! i) = (\<Sum>i\<in>{..<length xs}. f (xs ! i))"
    by (rule sum.cong) auto
  show ?thesis unfolding a b c assms(2) ..
qed

lemma softmax_nth:
  "i < length ls \<Longrightarrow> softmax ls ! i = expl (ls ! i) / sum_list (map expl ls)"
  by (simp add: softmax_def)

lemma length_softmax [simp]: "length (softmax ls) = length ls"
  by (simp add: softmax_def)

lemma softmax_nonneg: "i < length ls \<Longrightarrow> 0 \<le> softmax ls ! i"
  by (auto simp: softmax_nth intro!: divide_nonneg_nonneg sum_list_nonneg)

lemma softmax_sum:
  assumes "Some x \<in> set ls"
  shows "(\<Sum>i<length ls. softmax ls ! i) = 1"
proof -
  let ?Z = "sum_list (map expl ls)"
  have z: "0 < ?Z" using assms by (rule sum_list_expl_pos)
  have "(\<Sum>i<length ls. softmax ls ! i) = (\<Sum>i<length ls. expl (ls ! i) / ?Z)"
    by (rule sum.cong) (auto simp: softmax_nth)
  also have "\<dots> = (\<Sum>i<length ls. expl (ls ! i)) / ?Z"
    by (simp add: sum_divide_distrib)
  also have "(\<Sum>i<length ls. expl (ls ! i)) = (\<Sum>i = 0..<length (map expl ls). map expl ls ! i)"
    by (rule sum.cong) auto
  also have "\<dots> = ?Z" by (rule sum_list_sum_nth[symmetric])
  finally show ?thesis using z by simp
qed

lemma length_cumsum [simp]: "length (cumsum xs) = length xs"
  by (simp add: cumsum_def)

lemma argsort_desc_nth_less:
  assumes "j < length logits"
  shows "argsort_desc logits ! j < length logits"
proof -
  have "argsort_desc logits ! j \<in> set (argsort_desc logits)"
    using assms by (intro nth_mem) (simp add: argsort_desc_perm)
  then show ?thesis by (simp add: argsort_desc_perm)
qed

lemma top_p_filter_value:
  assumes "logits \<noteq> []"
  shows "top_p_filter top_p logits
           = Inr (map2 (\<lambda>l r. if r then None else l) logits (removal_mask top_p logits))"
proof -
  have "length (map (\<lambda>c. top_p < c)
          (cumsum (softmax (map (\<lambda>i. logits ! i) (argsort_desc logits))))) = length logits"
    by (simp add: argsort_desc_perm)
  then have "map (\<lambda>c. top_p < c)
          (cumsum (softmax (map (\<lambda>i. logits ! i) (argsort_desc logits)))) \<noteq> []"
    using assms by (metis length_0_conv)
  then show ?thesis
    by (simp add: top_p_filter_def Let_def removal_mask_def shifted_removal_def
        sorted_probs_def)
qed

lemma length_sorted_probs [simp]: "length (sorted_probs logits) = length logits"
  by (simp add: sorted_probs_def argsort_desc_perm)

lemma length_shifted_removal [simp]:
  "logits \<noteq> [] \<Longrightarrow> length (shifted_removal top_p logits) = length logits"
  by (simp add: shifted_removal_def)

lemma length_removal_mask [simp]:
  "logits \<noteq> [] \<Longrightarrow> length (removal_mask top_p logits) = length logits"
  by (simp add: removal_mask_def)

lemma shifted_removal_0: "shifted_removal top_p logits ! 0 = False"
  by (simp add: shifted_removal_def)

lemma shifted_removal_Suc:
  assumes "Suc j < length logits"
  shows "shifted_removal top_p logits ! Suc j
           = (top_p < (\<Sum>t<Suc j. sorted_probs logits ! t))"
proof -
  have "j < length (butlast (map (\<lambda>c. top_p < c) (cumsum (sorted_probs logits))))"
    using assms by simp
  then have "butlast (map (\<lambda>c. top_p < c) (cumsum (sorted_probs logits))) ! j
      = map (\<lambda>c. top_p < c) (cumsum (sorted_probs logits)) ! j"
    by (rule nth_butlast)
  then show ?thesis using assms by (simp add: shifted_removal_def cumsum_nth)
qed

lemma removal_mask_sorted:
  assumes "j < length logits"
  shows "removal_mask top_p logits ! (argsort_desc logits ! j) = shifted_removal top_p logits ! j"
proof -
  have ne: "logits \<noteq> []" using assms by auto
  have "argsort_desc logits ! j < length logits"
    using assms by (rule argsort_desc_nth_less)
  then show ?thesis
    unfolding removal_mask_def using assms ne
    by (intro scatter_nth) (simp_all add: argsort_desc_perm)
qed

lemma sorted_probs_nth:
  assumes "j < length logits"
  shows "sorted_probs logits ! j = softmax logits ! (argsort_desc logits ! j)"
proof -
  have r: "argsort_desc logits ! j < length logits"
    using assms by (rule argsort_desc_nth_less)
  have z: "sum_list (map expl (map (\<lambda>i. logits ! i) (argsort_desc logits)))
             = sum_list (map expl logits)"
    using sum_list_perm_index[of "argsort_desc logits" logits expl]
    by (simp add: argsort_desc_perm comp_def)
  have "sorted_probs logits ! j
          = expl (logits ! (argsort_desc logits ! j))
              / sum_list (map expl (map (\<lambda>i. logits ! i) (argsort_desc logits)))"
    using assms unfolding sorted_probs_def
    by (subst softmax_nth) (simp_all add: argsort_desc_perm)
  then show ?thesis using r unfolding z by (simp add: softmax_nth)
qed

lemma argsort_desc_bij:
  "bij_betw (\<lambda>j. argsort_desc logits ! j) {..<length logits} {..<length logits}"
  by (rule bij_betw_nth) (simp_all add: argsort_desc_perm)

lemma sum_sorted_reindex:
  fixes g :: "nat \<Rightarrow> real"
  shows "(\<Sum>j<length logits. g (argsort_desc logits ! j)) = (\<Sum>i<length logits. g i)"
  by (rule sum.reindex_bij_betw[OF argsort_desc_bij])

lemma top_logit_is_max:
  assumes "j < length logits"
  shows "logits ! j \<le> logits ! (argsort_desc logits ! 0)"
proof -
  have "j \<in> set (argsort_desc logits)" using assms by (simp add: argsort_desc_perm)
  then obtain j' where "j' < length (argsort_desc logits)" "argsort_desc logits ! j' = j"
    unfolding in_set_conv_nth by blast
  then have j': "j' < length logits" "argsort_desc logits ! j' = j"
    by (simp_all add: argsort_desc_perm)
  show ?thesis using argsort_desc_sorted[of 0 j' logits] j' by simp
qed

lemma sorted_probs_nonneg: "j < length logits \<Longrightarrow> 0 \<le> sorted_probs logits ! j"
  by (simp add: sorted_probs_nth softmax_nonneg argsort_desc_nth_less)

lemma kept_sorted_mass:
  assumes tp: "top_p \<le> 1" and fin: "Some x \<in> set logits"
  shows "top_p \<le> (\<Sum>j<length logits.
            if shifted_removal top_p logits ! j then 0 else sorted_probs logits ! j)"
proof -
  let ?n = "length logits" and ?sh = "shifted_removal top_p logits"
  let ?ps = "sorted_probs logits"
  let ?T = "\<Sum>j<?n. if ?sh ! j then 0 else ?ps ! j"
  show ?thesis
  proof (cases "\<exists>j<?n. ?sh ! j")
    case True
    have "\<exists>m. (m < ?n \<and> ?sh ! m) \<and> (\<forall>k<m. \<not> (k < ?n \<and> ?sh ! k))"
      using True by (subst exists_least_iff[symmetric]) blast
    then obtain m where m: "m < ?n \<and> ?sh ! m" and lm: "\<forall>k<m. \<not> (k < ?n \<and> ?sh ! k)"
      by blast
    have least: "\<not> ?sh ! j" if "j < m" for j
      using that lm m by auto
    obtain m' where m': "m = Suc m'"
      using m shifted_removal_0[of top_p logits] by (cases m) auto
    have "top_p < (\<Sum>t<Suc m'. ?ps ! t)"
      using m m' shifted_removal_Suc[of m' logits top_p] by simp
    also have "(\<Sum>t<Suc m'. ?ps ! t) = (\<Sum>t<m. if ?sh ! t then 0 else ?ps ! t)"
      unfolding m' [symmetric] by (rule sum.cong) (auto simp: least)
    also have "\<dots> \<le> ?T"
      using m by (intro sum_mono2) (auto simp: sorted_probs_nonneg)
    finally show ?thesis by simp
  next
    case False
    then have "?T = (\<Sum>j<?n. ?ps ! j)" by (intro sum.cong) auto
    also have "\<dots> = (\<Sum>j<?n. softmax logits ! (argsort_desc logits ! j))"
      by (intro sum.cong) (auto simp: sorted_probs_nth)
    also have "\<dots> = (\<Sum>i<?n. softmax logits ! i)" by (rule sum_sorted_reindex)
    also have "\<dots> = 1" using fin by (rule softmax_sum)
    finally show ?thesis using tp by simp
  qed
qed

lemma top_p_filter_nth:
  assumes "i < length logits"
  shows "\<exists>out. top_p_filter top_p logits = Inr out \<and> length out = length logits
           \<and> out ! i = (if removal_mask top_p logits ! i then None else logits ! i)"
proof -
  have ne: "logits \<noteq> []" using assms by auto
  then show ?thesis using assms by (simp add: top_p_filter_value)
qed

lemma top_p_filter_top:
  assumes fin: "Some x \<in> set logits"
  shows "\<exists>out. top_p_filter top_p logits = Inr out \<and> length out = length logits
           \<and> (\<exists>i<length logits. out ! i \<noteq> None \<and> out ! i = logits ! i
                  \<and> (\<forall>j<length logits. logits ! j \<le> logits ! i))"
proof -
  let ?n = "length logits" and ?rm = "removal_mask top_p logits"
  let ?i0 = "argsort_desc logits ! 0"
  have n0: "0 < ?n" using fin by (cases logits) auto
  have i0: "?i0 < ?n" using n0 by (rule argsort_desc_nth_less)
  obtain out where out: "top_p_filter top_p logits = Inr out" "length out = ?n"
      "out ! ?i0 = (if ?rm ! ?i0 then None else logits ! ?i0)"
    using top_p_filter_nth[OF i0, of top_p] by blast
  have keep0: "\<not> ?rm ! ?i0"
    using removal_mask_sorted[OF n0, of top_p] shifted_removal_0[of top_p logits] by simp
  obtain jx where jx: "jx < ?n" "logits ! jx = Some x"
    using fin by (auto simp: in_set_conv_nth)
  have "Some x \<le> logits ! ?i0" using top_logit_is_max[OF jx(1)] jx(2) by simp
  then have fin0: "logits ! ?i0 \<noteq> None" by (cases "logits ! ?i0") auto
  have "out ! ?i0 \<noteq> None \<and> out ! ?i0 = logits ! ?i0
          \<and> (\<forall>j<?n. logits ! j \<le> logits ! ?i0)"
    using keep0 fin0 top_logit_is_max out(3) by auto
  then show ?thesis using out(1,2) i0 by blast
qed

lemma top_p_filter_mass:
  assumes tp: "top_p \<le> 1" and fin: "Some x \<in> set logits"
    and res: "top_p_filter top_p logits = Inr out"
  shows "top_p \<le> (\<Sum>i | i < length logits \<and> out ! i \<noteq> None. softmax logits ! i)"
proof -
  let ?n = "length logits" and ?rm = "removal_mask top_p logits"
  let ?s = "argsort_desc logits"
  have ne: "logits \<noteq> []" using fin by auto
  have out: "out = map2 (\<lambda>l r. if r then None else l) logits ?rm"
    using res ne by (simp add: top_p_filter_value)
  have nth: "out ! i = (if ?rm ! i then None else logits ! i)" if "i < ?n" for i
    using that ne by (simp add: out)
  have "(\<Sum>i | i < ?n \<and> out ! i \<noteq> None. softmax logits ! i)
          = (\<Sum>i\<in>{..<?n}. if out ! i \<noteq> None then softmax logits ! i else 0)"
  proof -
    have a: "{i. i < ?n \<and> out ! i \<noteq> None} = {i \<in> {..<?n}. out ! i \<noteq> None}" by auto
    have b: "sum (\<lambda>i. softmax logits ! i) {i \<in> {..<?n}. out ! i \<noteq> None}
               = (\<Sum>i\<in>{..<?n}. if out ! i \<noteq> None then softmax logits ! i else 0)"
      by (rule sum.inter_filter) simp
    show ?thesis unfolding a b ..
  qed
  also have "\<dots> = (\<Sum>i<?n. if ?rm ! i then 0 else softmax logits ! i)"
  proof (rule sum.cong)
    fix i assume "i \<in> {..<?n}"
    then have i: "i < ?n" by simp
    show "(if out ! i \<noteq> None then softmax logits ! i else 0)
            = (if ?rm ! i then 0 else softmax logits ! i)"
      using i by (cases "logits ! i") (auto simp: nth[OF i] softmax_nth expl_def)
  qed simp
  also have "\<dots> = (\<Sum>j<?n. if ?rm ! (?s ! j) then 0 else softmax logits ! (?s ! j))"
    by (rule sum_sorted_reindex[symmetric])
  also have "\<dots> = (\<Sum>j<?n. if shifted_removal top_p logits ! j then 0
                              else sorted_probs logits ! j)"
    by (rule sum.cong) (auto simp: removal_mask_sorted sorted_probs_nth)
  finally show ?thesis
    using kept_sorted_mass[OF tp fin] by simp
qed

lemma top_p_filter_all_kept_example:
  "top_p_filter 2 [Some 0, Some 0] = Inr [Some 0, Some 0]"
  by (simp add: top_p_filter_def argsort_desc_def softmax_def expl_def cumsum_def
      scatter_def upt_rec Let_def)

text \<open>
  Claim C2 as stated bounds the kept probability below by \<open>top_p\<close> for every
  threshold. \<open>generate\<close> accepts any float: at \<open>top_p = 2\<close> no cumulative
  probability exceeds the threshold, nothing is removed, and the kept tokens carry
  probability 1, which is below 2.
\<close>

theorem top_p_filter_mass_below_threshold_counterexample:
  "top_p_filter 2 [Some 0, Some 0] = Inr [Some 0, Some 0]
   \<and> (\<Sum>i | i < length [Some 0, Some (0::real)] \<and> [Some 0, Some (0::real)] ! i \<noteq> None.
          softmax [Some 0, Some 0] ! i) = 1
   \<and> \<not> (2::real) \<le> 1"
proof -
  have s: "{i. i < length [Some 0, Some (0::real)] \<and> [Some 0, Some (0::real)] ! i \<noteq> None}
             = {0, 1}"
    by (auto simp: less_Suc_eq nth_Cons')
  have "(\<Sum>i\<in>{0, 1::nat}. softmax [Some 0, Some 0] ! i) = 1"
    by (simp add: softmax_def expl_def)
  then show ?thesis unfolding s using top_p_filter_all_kept_example by simp
qed

text \<open>
  Claim C2, amended. At a generation step with the nucleus threshold \<open>top_p\<close> active,
  \<open>top_p \<le> 1\<close>, and at least one finite logit, the filter returns, the highest logit
  is among those it keeps (so the kept set is not empty), and the kept tokens have
  cumulative softmax probability at least \<open>top_p\<close>.
\<close>

theorem top_p_filter_keeps_mass:
  assumes tp: "top_p \<le> 1" and fin: "\<exists>x. Some x \<in> set logits"
  shows "\<exists>out. top_p_filter top_p logits = Inr out \<and> length out = length logits
           \<and> (\<exists>i<length logits. out ! i \<noteq> None \<and> out ! i = logits ! i
                  \<and> (\<forall>j<length logits. logits ! j \<le> logits ! i))
           \<and> top_p \<le> (\<Sum>i | i < length logits \<and> out ! i \<noteq> None. softmax logits ! i)"
proof -
  obtain x where x: "Some x \<in> set logits" using fin by blast
  obtain out where out: "top_p_filter top_p logits = Inr out" "length out = length logits"
    "\<exists>i<length logits. out ! i \<noteq> None \<and> out ! i = logits ! i
         \<and> (\<forall>j<length logits. logits ! j \<le> logits ! i)"
    using top_p_filter_top[OF x, of top_p] by blast
  show ?thesis using out top_p_filter_mass[OF tp x out(1)] by blast
qed

lemma top_p_filter_example:
  "top_p_filter (1/4) [Some 0, None, Some 0] = Inr [None, None, Some 0]"
  by (simp add: top_p_filter_def argsort_desc_def softmax_def expl_def cumsum_def
      scatter_def upt_rec numeral_3_eq_3 Let_def)

theorem top_p_filter_keeps_mass_witness:
  "(1/4::real) \<le> 1 \<and> Some 0 \<in> set [Some 0, None, Some (0::real)]
   \<and> top_p_filter (1/4) [Some 0, None, Some 0] = Inr [None, None, Some 0]
   \<and> (1/4::real) \<le> (\<Sum>i | i < length [Some 0, None, Some (0::real)]
                              \<and> [None, None, Some (0::real)] ! i \<noteq> None.
                        softmax [Some 0, None, Some 0] ! i)"
proof -
  have v: "top_p_filter (1/4) [Some 0, None, Some 0] = Inr [None, None, Some 0]"
    by (rule top_p_filter_example)
  have h1: "(1/4::real) \<le> 1" by simp
  have h2: "\<exists>x. Some x \<in> set [Some 0, None, Some (0::real)]" by auto
  obtain out where o: "top_p_filter (1/4) [Some 0, None, Some 0] = Inr out"
    "1/4 \<le> (\<Sum>i | i < length [Some 0, None, Some (0::real)] \<and> out ! i \<noteq> None.
                        softmax [Some 0, None, Some 0] ! i)"
    using top_p_filter_keeps_mass[OF h1 h2] by blast
  have "out = [None, None, Some 0]" using o(1) v by simp
  then show ?thesis using o(2) v by simp
qed

subsection \<open>C1: the generated sequence\<close>

lemma multinomial_index_less: "ps \<noteq> [] \<Longrightarrow> multinomial_index ps u < length ps"
  by (induction ps u rule: multinomial_index.induct) auto

lemma sum_list_softmax:
  assumes "Some x \<in> set ls"
  shows "sum_list (softmax ls) = 1"
proof -
  have "sum_list (softmax ls) = (\<Sum>i = 0..<length (softmax ls). softmax ls ! i)"
    by (rule sum_list_sum_nth)
  also have "\<dots> = (\<Sum>i<length ls. softmax ls ! i)"
    by (simp add: atLeast0LessThan)
  finally show ?thesis using softmax_sum[OF assms] by simp
qed

lemma multinomial_softmax:
  assumes "Some x \<in> set ls"
  shows "\<exists>t. multinomial (softmax ls) u = Inr t \<and> t < length ls"
proof -
  have ne: "softmax ls \<noteq> []" using assms by (auto simp: softmax_def)
  show ?thesis
    using multinomial_index_less[OF ne, of u] by (simp add: multinomial_def sum_list_softmax[OF assms])
qed

lemma top_k_filter_keeps_one:
  assumes "1 \<le> K" "K \<le> int (length xs)"
  shows "\<exists>out x. top_k_filter K xs = Inr out \<and> length out = length xs \<and> Some x \<in> set out"
proof -
  let ?kth = "rev (sort xs) ! (nat K - 1)"
  have "nat K - 1 < length (rev (sort xs))" using assms by auto
  then have "?kth \<in> set (rev (sort xs))" by (rule nth_mem)
  then have "?kth \<in> set xs" by simp
  then have "Some ?kth \<in> set (map (\<lambda>x. if x < ?kth then None else Some x) xs)"
    by (auto simp: image_iff intro!: bexI[of _ ?kth])
  then show ?thesis using assms by (auto simp: top_k_filter_value)
qed

lemma top_p_filter_keeps_one:
  assumes "Some x \<in> set logits"
  shows "\<exists>out y. top_p_filter top_p logits = Inr out \<and> length out = length logits
           \<and> Some y \<in> set out"
proof -
  obtain out i where o: "top_p_filter top_p logits = Inr out" "length out = length logits"
     "i < length logits" "out ! i \<noteq> None"
    using top_p_filter_top[OF assms, of top_p] by blast
  then obtain y where "out ! i = Some y" by auto
  then have "Some y \<in> set out" using o(2,3) by (metis nth_mem)
  then show ?thesis using o by blast
qed

lemma forward_row_last:
  assumes "1 \<le> vocab_size cfg" "ctx \<noteq> []" "int (length ctx) \<le> block_size cfg" "in_vocab cfg ctx"
  shows "\<exists>all_logits last. forward_row cfg net ctx = Inr all_logits
           \<and> py_index all_logits (- 1) = Inr last \<and> length last = nat (vocab_size cfg)"
proof -
  have nx: "\<not> list_ex (\<lambda>t. t < 0 \<or> vocab_size cfg \<le> t) ctx"
    using assms(4) by (auto simp: in_vocab_def list_all_iff list_ex_iff)
  let ?all = "map (\<lambda>t. map (net (take (Suc t) ctx)) [0..<nat (vocab_size cfg)]) [0..<length ctx]"
  have f: "forward_row cfg net ctx = Inr ?all"
    using assms(3) nx by (simp add: forward_row_def)
  have l: "length ?all = length ctx" by simp
  have "py_index ?all (- 1) = Inr (?all ! (length ctx - 1))"
    using assms(2) unfolding py_index_def l
    by (cases ctx) (simp_all add: nat_diff_distrib' del: upt_Suc)
  moreover have "length (?all ! (length ctx - 1)) = nat (vocab_size cfg)"
    using assms(2) by (cases ctx) (simp_all del: upt_Suc)
  ultimately show ?thesis using f by blast
qed

lemma idx_cond_ok:
  assumes "1 \<le> block_size cfg" "idx \<noteq> []" "in_vocab cfg idx"
  defines "idx_cond \<equiv> (if int (length idx) \<le> block_size cfg then idx
                      else py_slice_from idx (- block_size cfg))"
  shows "idx_cond \<noteq> [] \<and> int (length idx_cond) \<le> block_size cfg \<and> in_vocab cfg idx_cond"
proof (cases "int (length idx) \<le> block_size cfg")
  case True
  then show ?thesis using assms by simp
next
  case False
  then have c: "idx_cond = drop (length idx - nat (block_size cfg)) idx"
    using assms(1) by (simp add: idx_cond_def py_slice_from_def)
  have "set idx_cond \<subseteq> set idx" unfolding c by (rule set_drop_subset)
  then have "in_vocab cfg idx_cond" using assms(3) by (auto simp: in_vocab_def list_all_iff)
  moreover have "length idx_cond = nat (block_size cfg)" using False assms(1) unfolding c by simp
  ultimately show ?thesis using assms(1) by auto
qed

lemma generate_row_step_ok:
  assumes v: "1 \<le> vocab_size cfg" and b: "1 \<le> block_size cfg"
    and ne: "idx \<noteq> []" and iv: "in_vocab cfg idx"
    and temp: "temperature \<noteq> 0"
    and tk: "\<forall>K. top_k = Some K \<longrightarrow> 1 \<le> K \<and> K \<le> vocab_size cfg"
  shows "\<exists>t. generate_row_step cfg net temperature top_k top_p u idx = Inr (idx @ [t])
           \<and> 0 \<le> t \<and> t < vocab_size cfg"
proof -
  define idx_cond where "idx_cond = (if int (length idx) \<le> block_size cfg then idx
                      else py_slice_from idx (- block_size cfg))"
  have c: "idx_cond \<noteq> [] \<and> int (length idx_cond) \<le> block_size cfg \<and> in_vocab cfg idx_cond"
    unfolding idx_cond_def using b ne iv by (rule idx_cond_ok)
  obtain all_logits last where f: "forward_row cfg net idx_cond = Inr all_logits"
      "py_index all_logits (- 1) = Inr last" "length last = nat (vocab_size cfg)"
    using forward_row_last[of cfg idx_cond net] v c by blast
  define logits where "logits = map (\<lambda>x. x / temperature) last"
  have ll: "length logits = nat (vocab_size cfg)" by (simp add: logits_def f(3))
  have "\<exists>lk x. (case top_k of None \<Rightarrow> Inr (map Some logits) | Some k \<Rightarrow> top_k_filter k logits) = Inr lk
          \<and> length lk = length logits \<and> Some x \<in> set lk"
  proof (cases top_k)
    case None
    have "logits \<noteq> []" using ll v by auto
    then obtain x where "x \<in> set logits" by (cases logits) auto
    then have "Some x \<in> set (map Some logits)" by simp
    then show ?thesis using None by auto
  next
    case (Some K)
    then have "1 \<le> K" "K \<le> int (length logits)" using tk ll v by auto
    then show ?thesis using Some top_k_filter_keeps_one[of K logits] by simp
  qed
  then obtain lk x where lk: "(case top_k of None \<Rightarrow> Inr (map Some logits)
         | Some k \<Rightarrow> top_k_filter k logits) = Inr lk"
     "length lk = length logits" "Some x \<in> set lk" by blast
  have "\<exists>lp y. (case top_p of None \<Rightarrow> Inr lk | Some p \<Rightarrow> top_p_filter p lk) = Inr lp
          \<and> length lp = length lk \<and> Some y \<in> set lp"
  proof (cases top_p)
    case None
    then show ?thesis using lk by auto
  next
    case (Some p)
    then show ?thesis using top_p_filter_keeps_one[OF lk(3), of p] by simp
  qed
  then obtain lp y where lp: "(case top_p of None \<Rightarrow> Inr lk | Some p \<Rightarrow> top_p_filter p lk) = Inr lp"
     "length lp = length lk" "Some y \<in> set lp" by blast
  obtain t where t: "multinomial (softmax lp) u = Inr t" "t < length lp"
    using multinomial_softmax[OF lp(3), of u] by blast
  have "generate_row_step cfg net temperature top_k top_p u idx = Inr (idx @ [int t])"
    unfolding generate_row_step_def idx_cond_def[symmetric] Let_def
    using f(1,2) temp lk(1)[unfolded logits_def] lp(1) t(1) by simp
  moreover have "0 \<le> int t \<and> int t < vocab_size cfg"
    using t(2) lp(2) lk(2) ll by auto
  ultimately show ?thesis by blast
qed

lemma collect_ok:
  assumes "\<forall>r \<in> set rs. \<exists>x. r = Inr x"
  shows "collect rs = Inr (map projr rs)"
  using assms by (induction rs) auto

lemma generate_step_ok:
  assumes v: "1 \<le> vocab_size cfg" and b: "1 \<le> block_size cfg"
    and temp: "temperature \<noteq> 0"
    and tk: "\<forall>K. top_k = Some K \<longrightarrow> 1 \<le> K \<and> K \<le> vocab_size cfg"
    and rows: "\<forall>row \<in> set cur. row \<noteq> [] \<and> in_vocab cfg row"
  shows "\<exists>nxt. generate_step cfg net temperature top_k top_p us cur = Inr nxt
           \<and> length nxt = length cur
           \<and> (\<forall>b<length cur. \<exists>t. nxt ! b = cur ! b @ [t] \<and> 0 \<le> t \<and> t < vocab_size cfg)"
proof -
  let ?f = "\<lambda>b. generate_row_step cfg net temperature top_k top_p (us b) (cur ! b)"
  have each: "\<exists>t. ?f b = Inr (cur ! b @ [t]) \<and> 0 \<le> t \<and> t < vocab_size cfg" if "b < length cur" for b
    using that rows by (intro generate_row_step_ok[OF v b _ _ temp tk]) auto
  have "\<forall>r \<in> set (map ?f [0..<length cur]). \<exists>x. r = Inr x"
  proof
    fix r assume "r \<in> set (map ?f [0..<length cur])"
    then obtain b where "b < length cur" "r = ?f b" by auto
    then show "\<exists>x. r = Inr x" using each[of b] by auto
  qed
  then have c: "generate_step cfg net temperature top_k top_p us cur
                  = Inr (map projr (map ?f [0..<length cur]))"
    unfolding generate_step_def by (rule collect_ok)
  have "\<forall>b<length cur. \<exists>t. map projr (map ?f [0..<length cur]) ! b = cur ! b @ [t]
           \<and> 0 \<le> t \<and> t < vocab_size cfg"
  proof (intro allI impI)
    fix b assume bl: "b < length cur"
    obtain t where "?f b = Inr (cur ! b @ [t])" "0 \<le> t \<and> t < vocab_size cfg"
      using each[OF bl] by blast
    then show "\<exists>t. map projr (map ?f [0..<length cur]) ! b = cur ! b @ [t]
           \<and> 0 \<le> t \<and> t < vocab_size cfg" using bl by auto
  qed
  then show ?thesis using c by auto
qed

lemma in_vocab_append [simp]:
  "in_vocab cfg (xs @ ys) \<longleftrightarrow> in_vocab cfg xs \<and> in_vocab cfg ys"
  by (simp add: in_vocab_def)

lemma generate_loop_ok:
  assumes v: "1 \<le> vocab_size cfg" and b: "1 \<le> block_size cfg"
    and temp: "temperature \<noteq> 0"
    and tk: "\<forall>K. top_k = Some K \<longrightarrow> 1 \<le> K \<and> K \<le> vocab_size cfg"
    and rows: "\<forall>row \<in> set cur. row \<noteq> [] \<and> in_vocab cfg row"
  shows "\<exists>out. generate_loop cfg net temperature top_k top_p rng n s cur = Inr out
           \<and> length out = length cur
           \<and> (\<forall>b<length cur. \<exists>new. out ! b = cur ! b @ new \<and> length new = n
                   \<and> in_vocab cfg new)"
  using rows
proof (induction n arbitrary: s cur)
  case 0
  then show ?case by (simp add: in_vocab_def)
next
  case (Suc n)
  obtain nxt where nxt: "generate_step cfg net temperature top_k top_p (rng s) cur = Inr nxt"
      "length nxt = length cur"
      "\<forall>b<length cur. \<exists>t. nxt ! b = cur ! b @ [t] \<and> 0 \<le> t \<and> t < vocab_size cfg"
    using generate_step_ok[OF v b temp tk Suc.prems, of net top_p "rng s"] by blast
  have rows': "\<forall>row \<in> set nxt. row \<noteq> [] \<and> in_vocab cfg row"
  proof
    fix row assume "row \<in> set nxt"
    then obtain b where bl: "b < length cur" "row = nxt ! b"
      using nxt(2) by (auto simp: in_set_conv_nth)
    then obtain t where t: "row = cur ! b @ [t]" "0 \<le> t \<and> t < vocab_size cfg"
      using nxt(3) by auto
    have "in_vocab cfg (cur ! b)" using Suc.prems bl(1) by auto
    then show "row \<noteq> [] \<and> in_vocab cfg row" using t by (simp add: in_vocab_def)
  qed
  obtain out where out: "generate_loop cfg net temperature top_k top_p rng n (Suc s) nxt = Inr out"
      "length out = length nxt"
      "\<forall>b<length nxt. \<exists>new. out ! b = nxt ! b @ new \<and> length new = n \<and> in_vocab cfg new"
    using Suc.IH[OF rows', of "Suc s"] by blast
  have "\<forall>b<length cur. \<exists>new. out ! b = cur ! b @ new \<and> length new = Suc n \<and> in_vocab cfg new"
  proof (intro allI impI)
    fix b assume bl: "b < length cur"
    obtain t where t: "nxt ! b = cur ! b @ [t]" "0 \<le> t \<and> t < vocab_size cfg"
      using nxt(3) bl by blast
    obtain new where new: "out ! b = nxt ! b @ new" "length new = n" "in_vocab cfg new"
      using out(3) bl nxt(2) by auto
    have "out ! b = cur ! b @ (t # new) \<and> length (t # new) = Suc n \<and> in_vocab cfg (t # new)"
      using t new by (simp add: in_vocab_def)
    then show "\<exists>new. out ! b = cur ! b @ new \<and> length new = Suc n \<and> in_vocab cfg new"
      by blast
  qed
  then show ?case using nxt(1,2) out(1,2) by simp
qed

text \<open>
  Claim C1 as stated covers every seed context of shape \<open>(B, T)\<close>. On an empty
  context (\<open>T = 0\<close>) the first step has no last position to read the logits from,
  and \<open>generate\<close> raises instead of returning.
\<close>

theorem generate_empty_context_counterexample:
  "generate tiny (\<lambda>ctx v. 0) (\<lambda>s b. 1/2) [[]] 1 1 None None = Inl IndexError"
  by (simp add: generate_def generate_step_def generate_row_step_def tiny_def
      forward_row_def py_index_def)

text \<open>
  Claim C1, amended. For a model with \<open>vocab_size \<ge> 1\<close> and \<open>block_size \<ge> 1\<close>, every
  seed context of shape \<open>(B, T)\<close> with \<open>T \<ge> 1\<close> and tokens in \<open>[0, vocab_size)\<close>, every
  count \<open>k \<ge> 0\<close>, a temperature other than 0, \<open>top_k\<close> absent or within
  \<open>[1, vocab_size]\<close>, any \<open>top_p\<close>, any network and any random draws:
  \<open>generate\<close> returns; each row of the result has length \<open>T + k\<close>, begins with the
  seed row, and every new token lies in \<open>[0, vocab_size)\<close>.
\<close>

theorem generate_extends_context:
  assumes v: "1 \<le> vocab_size cfg" and b: "1 \<le> block_size cfg"
    and temp: "temperature \<noteq> 0"
    and tk: "\<forall>K. top_k = Some K \<longrightarrow> 1 \<le> K \<and> K \<le> vocab_size cfg"
    and T: "1 \<le> T"
    and rows: "\<forall>row \<in> set idx. length row = T \<and> (\<forall>t \<in> set row. 0 \<le> t \<and> t < vocab_size cfg)"
    and k: "0 \<le> k"
  shows "\<exists>out. generate cfg net rng idx k temperature top_k top_p = Inr out
           \<and> length out = length idx
           \<and> (\<forall>b<length idx. length (out ! b) = T + nat k
                  \<and> take T (out ! b) = idx ! b
                  \<and> (\<forall>t \<in> set (drop T (out ! b)). 0 \<le> t \<and> t < vocab_size cfg))"
proof -
  have rows': "\<forall>row \<in> set idx. row \<noteq> [] \<and> in_vocab cfg row"
    using rows T by (auto simp: in_vocab_def list_all_iff)
  obtain out where out: "generate_loop cfg net temperature top_k top_p rng (nat k) 0 idx = Inr out"
      "length out = length idx"
      "\<forall>b<length idx. \<exists>new. out ! b = idx ! b @ new \<and> length new = nat k \<and> in_vocab cfg new"
    using generate_loop_ok[OF v b temp tk rows', of net top_p rng "nat k" 0] by blast
  have "\<forall>b<length idx. length (out ! b) = T + nat k \<and> take T (out ! b) = idx ! b
                  \<and> (\<forall>t \<in> set (drop T (out ! b)). 0 \<le> t \<and> t < vocab_size cfg)"
  proof (intro allI impI)
    fix b assume bl: "b < length idx"
    obtain new where new: "out ! b = idx ! b @ new" "length new = nat k" "in_vocab cfg new"
      using out(3) bl by blast
    have l: "length (idx ! b) = T" using rows bl by auto
    show "length (out ! b) = T + nat k \<and> take T (out ! b) = idx ! b
                  \<and> (\<forall>t \<in> set (drop T (out ! b)). 0 \<le> t \<and> t < vocab_size cfg)"
      using new l by (auto simp: in_vocab_def list_all_iff)
  qed
  then show ?thesis using out(1,2) by (simp add: generate_def)
qed

lemma generate_example:
  "generate tiny (\<lambda>ctx v. 0) (\<lambda>s b. 1/2) [[0]] 2 1 None None = Inr [[0, 1, 1]]"
  by (simp add: generate_def generate_step_def generate_row_step_def tiny_def
      forward_row_def py_index_def softmax_def expl_def multinomial_def numeral_2_eq_2
      numeral_3_eq_3 upt_rec)

theorem generate_extends_context_witness:
  "1 \<le> vocab_size tiny \<and> 1 \<le> block_size tiny \<and> (1::real) \<noteq> 0 \<and> (1::nat) \<le> 1
   \<and> (0::int) \<le> 2
   \<and> generate tiny (\<lambda>ctx v. 0) (\<lambda>s b. 1/2) [[0]] 2 1 None None = Inr [[0, 1, 1]]
   \<and> length [0, 1, 1 :: int] = 1 + nat 2"
proof -
  have h: "1 \<le> vocab_size tiny" "1 \<le> block_size tiny" by (simp_all add: tiny_def)
  show ?thesis
    using generate_extends_context
      [OF h, of 1 None 1 "[[0]]" 2 "\<lambda>ctx v. 0" "\<lambda>s b. 1/2" None]
      h generate_example
    by simp
qed

subsection \<open>Module trees\<close>

lemma join_name_Nil [simp]: "join_name [] n = n"
  by (simp add: join_name_def)

lemma join_name_eq_Nil [simp]: "join_name p n = [] \<longleftrightarrow> p = [] \<and> n = []"
  by (simp add: join_name_def)

lemma under_Nil [simp]: "under p [] = p"
  by (simp add: under_def)

lemma under_under:
  "n \<noteq> [] \<Longrightarrow> under p (under n y) = under (join_name p n) y"
  by (auto simp: under_def join_name_def)

lemma join_under:
  "join_name (under mn mp) k = join_name mn (join_name mp k)"
  by (auto simp: under_def join_name_def)

lemma named_modules_under:
  fixes p :: string
  shows "wf_module m \<Longrightarrow> \<forall>q. named_modules q m = map (\<lambda>(n, x). (under q n, x)) (named_modules [] m)"
  and "wf_children cs \<Longrightarrow> \<forall>q. named_children q cs = map (\<lambda>(n, x). (under q n, x)) (named_children [] cs)"
proof (induction p m and p cs rule: named_modules_named_children.induct)
  case (1 prefix k ps cs)
  have "wf_children cs" using 1(2) by simp
  then have b: "\<forall>q. named_children q cs = map (\<lambda>(n, x). (under q n, x)) (named_children [] cs)"
    by (rule 1(1))
  show ?case
  proof
    fix q
    have "named_children q cs = map (\<lambda>(n, x). (under q n, x)) (named_children [] cs)"
      using b by blast
    then show "named_modules q (Module k ps cs)
            = map (\<lambda>(n, x). (under q n, x)) (named_modules [] (Module k ps cs))"
      by (simp only: named_modules.simps list.map prod.case under_Nil)
  qed
next
  case (2 prefix)
  then show ?case by simp
next
  case (3 prefix name c cs)
  have n: "name \<noteq> []" and wc: "wf_module c" and wcs: "wf_children cs"
    using 3(3) by auto
  have a: "\<forall>q. named_modules q c = map (\<lambda>(n, x). (under q n, x)) (named_modules [] c)"
    using 3(1)[OF wc] .
  have b: "\<forall>q. named_children q cs = map (\<lambda>(n, x). (under q n, x)) (named_children [] cs)"
    using 3(2)[OF wcs] .
  show ?case
  proof
    fix q
    have a1: "named_modules name c = map (\<lambda>(n, x). (under name n, x)) (named_modules [] c)"
      using a by blast
    have a2: "named_modules (join_name q name) c
                = map (\<lambda>(n, x). (under (join_name q name) n, x)) (named_modules [] c)"
      using a by blast
    have "map (\<lambda>(n, x). (under q n, x)) (named_modules name c)
            = map (\<lambda>(n, x). (under (join_name q name) n, x)) (named_modules [] c)"
      unfolding a1 using n by (simp add: under_under case_prod_unfold comp_def)
    then have c: "named_modules (join_name q name) c
            = map (\<lambda>(n, x). (under q n, x)) (named_modules name c)"
      using a2 by simp
    have d: "named_children q cs = map (\<lambda>(n, x). (under q n, x)) (named_children [] cs)"
      using b by blast
    show "named_children q ((name, c) # cs)
            = map (\<lambda>(n, x). (under q n, x)) (named_children [] ((name, c) # cs))"
      by (simp only: named_modules.simps named_children.simps map_append c d join_name_Nil)
  qed
qed

lemma named_modules_self: "(p, m) \<in> set (named_modules p m)"
  by (cases m) simp

lemma named_modules_subtree:
  "(mn, m) \<in> set (named_modules p r) \<Longrightarrow> set (named_modules mn m) \<subseteq> set (named_modules p r)"
  "(mn, m) \<in> set (named_children p cs) \<Longrightarrow> set (named_modules mn m) \<subseteq> set (named_children p cs)"
proof (induction p r and p cs rule: named_modules_named_children.induct)
  case (1 prefix k ps cs)
  then show ?case by auto
next
  case (2 prefix)
  then show ?case by simp
next
  case (3 prefix name c cs)
  then show ?case by auto
qed

lemma name_fits_join: "n \<noteq> [] \<Longrightarrow> name_fits (join_name p n) k = name_fits n k"
  by (simp add: name_fits_def join_name_def)

lemma wf_named_modules:
  "wf_module r \<Longrightarrow> (mn, x) \<in> set (named_modules p r)
     \<Longrightarrow> wf_module x \<and> ((mn, x) = (p, r) \<or> (mn \<noteq> [] \<and> name_fits mn (kind x)))"
  "wf_children cs \<Longrightarrow> (mn, x) \<in> set (named_children p cs)
     \<Longrightarrow> wf_module x \<and> mn \<noteq> [] \<and> name_fits mn (kind x)"
proof (induction p r and p cs rule: named_modules_named_children.induct)
  case (1 prefix k ps cs)
  have w: "wf_children cs" using 1(2) by simp
  show ?case
  proof (cases "(mn, x) = (prefix, Module k ps cs)")
    case True
    then show ?thesis using 1(2) by simp
  next
    case False
    then have "(mn, x) \<in> set (named_children prefix cs)" using 1(3) by auto
    then show ?thesis using 1(1)[OF w] by blast
  qed
next
  case (2 prefix)
  then show ?case by simp
next
  case (3 prefix name c cs)
  have n: "name \<noteq> []" and nf: "name_fits name (kind c)" and wc: "wf_module c"
    and wcs: "wf_children cs" using 3(3) by auto
  from 3(4) have "(mn, x) \<in> set (named_modules (join_name prefix name) c)
      \<or> (mn, x) \<in> set (named_children prefix cs)" by simp
  then show ?case
  proof
    assume "(mn, x) \<in> set (named_modules (join_name prefix name) c)"
    then have "wf_module x \<and> ((mn, x) = (join_name prefix name, c)
                 \<or> (mn \<noteq> [] \<and> name_fits mn (kind x)))"
      by (rule 3(1)[OF wc])
    then show ?thesis using n nf by (auto simp: name_fits_join)
  next
    assume "(mn, x) \<in> set (named_children prefix cs)"
    then show ?thesis by (rule 3(2)[OF wcs])
  qed
qed

lemma wf_module_params_fit: "wf_module m \<Longrightarrow> params_fit m"
  by (cases m) simp

lemma named_parameters_iff:
  "(fp, v) \<in> set (named_parameters m) \<longleftrightarrow>
     (\<exists>mp sub k. (mp, sub) \<in> set (named_modules [] m) \<and> (k, v) \<in> set (own_params sub)
        \<and> fp = join_name mp k)"
  by (force simp: named_parameters_def)

lemma loop_items_iff:
  "(fpn, c) \<in> set (loop_items gpt) \<longleftrightarrow>
     (\<exists>mn m pn p. (mn, m) \<in> set (named_modules [] gpt) \<and> (pn, p) \<in> set (named_parameters m)
        \<and> fpn = join_name mn pn \<and> c = classify_param m pn)"
  by (force simp: loop_items_def)

lemma decay_names_iff: "fpn \<in> set (decay_names gpt) \<longleftrightarrow> (fpn, ToDecay) \<in> set (loop_items gpt)"
  by (force simp: decay_names_def)

lemma no_decay_names_iff:
  "fpn \<in> set (no_decay_names gpt) \<longleftrightarrow> (fpn, ToNoDecay) \<in> set (loop_items gpt)"
  by (force simp: no_decay_names_def)

lemma own_params_named: "(k, v) \<in> set (own_params m) \<Longrightarrow> (k, v) \<in> set (named_parameters m)"
  unfolding named_parameters_iff using named_modules_self[of "[]" m]
  by (intro exI[of _ "[]"] exI[of _ m] exI[of _ k]) simp

lemma leaf_named_parameters:
  assumes "params_fit m" "kind m \<in> {Linear, LayerNorm, Embedding}"
  shows "named_parameters m = own_params m"
proof -
  have "children m = []" using assms by (simp add: params_fit_def)
  then have "named_modules [] m = [([], m)]" by (cases m) simp
  then show ?thesis by (simp add: named_parameters_def case_prod_unfold)
qed

lemma classify_own_param:
  assumes "params_fit m" "(k, v) \<in> set (own_params m)"
  shows "classify_param m k \<noteq> Unclassified"
proof -
  have kk: "kind m \<in> {Linear, LayerNorm, Embedding}"
    using assms by (auto simp: params_fit_def split: if_splits)
  then have "k \<in> {''weight'', ''bias''}" using assms by (force simp: params_fit_def)
  then show ?thesis using kk
    by (auto simp: classify_param_def endswith_def isinstance_def)
qed

text \<open>Every named parameter is classified.\<close>

lemma all_parameters_classified:
  assumes "wf_module gpt"
  shows "set (map fst (named_parameters gpt)) \<subseteq> set (decay_names gpt) \<union> set (no_decay_names gpt)"
proof
  fix fp assume "fp \<in> set (map fst (named_parameters gpt))"
  then obtain v where "(fp, v) \<in> set (named_parameters gpt)" by auto
  then obtain mp sub k where s: "(mp, sub) \<in> set (named_modules [] gpt)"
      "(k, v) \<in> set (own_params sub)" "fp = join_name mp k"
    unfolding named_parameters_iff by blast
  have "wf_module sub" using wf_named_modules(1)[OF assms s(1)] by simp
  then have pf: "params_fit sub" by (rule wf_module_params_fit)
  have "(fp, classify_param sub k) \<in> set (loop_items gpt)"
    unfolding loop_items_iff using s own_params_named[OF s(2)] by blast
  moreover have "classify_param sub k \<noteq> Unclassified" using pf s(2) by (rule classify_own_param)
  ultimately show "fp \<in> set (decay_names gpt) \<union> set (no_decay_names gpt)"
    by (cases "classify_param sub k") (auto simp: decay_names_iff no_decay_names_iff)
qed

text \<open>Every name the loop produces is the name of a parameter.\<close>

lemma loop_names_are_parameters:
  assumes "wf_module gpt" "(fpn, c) \<in> set (loop_items gpt)"
  shows "fpn \<in> set (map fst (named_parameters gpt))"
proof -
  obtain mn m pn p where l: "(mn, m) \<in> set (named_modules [] gpt)"
      "(pn, p) \<in> set (named_parameters m)" "fpn = join_name mn pn"
    using assms(2) unfolding loop_items_iff by blast
  obtain mp sub k where s: "(mp, sub) \<in> set (named_modules [] m)"
      "(k, p) \<in> set (own_params sub)" "pn = join_name mp k"
    using l(2) unfolding named_parameters_iff by blast
  have wm: "wf_module m" using wf_named_modules(1)[OF assms(1) l(1)] by simp
  have "named_modules mn m = map (\<lambda>(n, x). (under mn n, x)) (named_modules [] m)"
    using named_modules_under(1)[OF wm] by blast
  then have "(under mn mp, sub) \<in> set (named_modules mn m)" using s(1) by force
  then have "(under mn mp, sub) \<in> set (named_modules [] gpt)"
    using named_modules_subtree(1)[OF l(1)] by blast
  then have "(join_name (under mn mp) k, p) \<in> set (named_parameters gpt)"
    unfolding named_parameters_iff using s(2) by blast
  then show ?thesis unfolding l(3) s(3) join_under by force
qed

lemma endswith_iff: "endswith s suf \<longleftrightarrow> (\<exists>pre. s = pre @ suf)"
proof
  assume "endswith s suf"
  then have "s = take (length s - length suf) s @ suf"
    by (metis append_take_drop_id endswith_def)
  then show "\<exists>pre. s = pre @ suf" ..
next
  assume "\<exists>pre. s = pre @ suf"
  then show "endswith s suf" by (auto simp: endswith_def)
qed

lemma endswith_last: "endswith s suf \<Longrightarrow> suf \<noteq> [] \<Longrightarrow> last s = last suf"
  by (auto simp: endswith_iff)

lemma endswith_join: "endswith pn suf \<Longrightarrow> endswith (join_name p pn) suf"
  by (auto simp: endswith_iff join_name_def)

lemma decay_item_shape:
  assumes wf: "wf_module gpt" and root: "kind gpt \<notin> {Linear, LayerNorm, Embedding}"
    and mem: "(mn, m) \<in> set (named_modules [] gpt)" "(pn, p) \<in> set (named_parameters m)"
    and leaf: "kind m \<in> {Linear, LayerNorm, Embedding}"
  shows "mn \<noteq> [] \<and> name_fits mn (kind m) \<and> pn \<in> {''weight'', ''bias''}"
proof -
  have w: "wf_module m \<and> ((mn, m) = ([], gpt) \<or> (mn \<noteq> [] \<and> name_fits mn (kind m)))"
    using wf_named_modules(1)[OF wf mem(1)] .
  then have a: "mn \<noteq> [] \<and> name_fits mn (kind m)" using root leaf by auto
  have pf: "params_fit m" using w by (simp add: wf_module_params_fit)
  then have "named_parameters m = own_params m" using leaf by (rule leaf_named_parameters)
  then have "(pn, p) \<in> set (own_params m)" using mem(2) by simp
  then have "pn \<in> {''weight'', ''bias''}" using pf leaf by (force simp: params_fit_def)
  then show ?thesis using a by simp
qed

text \<open>No name is put into both sets.\<close>

lemma decay_no_decay_disjoint:
  assumes wf: "wf_module gpt" and root: "kind gpt \<notin> {Linear, LayerNorm, Embedding}"
  shows "set (decay_names gpt) \<inter> set (no_decay_names gpt) = {}"
proof (rule ccontr)
  assume "set (decay_names gpt) \<inter> set (no_decay_names gpt) \<noteq> {}"
  then obtain fpn where d: "(fpn, ToDecay) \<in> set (loop_items gpt)"
    and nd: "(fpn, ToNoDecay) \<in> set (loop_items gpt)"
    by (auto simp: decay_names_iff no_decay_names_iff)
  obtain mn m pn p where 1: "(mn, m) \<in> set (named_modules [] gpt)"
      "(pn, p) \<in> set (named_parameters m)" "fpn = join_name mn pn"
      "classify_param m pn = ToDecay"
    using d unfolding loop_items_iff by metis
  have c1: "\<not> endswith pn ''bias''" "kind m = Linear"
    using 1(4) by (auto simp: classify_param_def isinstance_def split: if_splits)
  have s1: "mn \<noteq> [] \<and> name_fits mn Linear \<and> pn \<in> {''weight'', ''bias''}"
    using decay_item_shape[OF wf root 1(1,2)] c1(2) by simp
  then have pn: "pn = ''weight''" using c1(1) by (auto simp: endswith_def)
  have f1: "fpn = mn @ ''.weight''" using 1(3) s1 pn by (simp add: join_name_def)
  obtain mn' m' pn' p' where 2: "(mn', m') \<in> set (named_modules [] gpt)"
      "(pn', p') \<in> set (named_parameters m')" "fpn = join_name mn' pn'"
      "classify_param m' pn' = ToNoDecay"
    using nd unfolding loop_items_iff by metis
  show False
  proof (cases "endswith pn' ''bias''")
    case True
    then have "endswith fpn ''bias''" unfolding 2(3) by (rule endswith_join)
    then have "last fpn = CHR ''s''" using endswith_last[of fpn "''bias''"] by simp
    then show False unfolding f1 by simp
  next
    case False
    then have k2: "kind m' \<in> {LayerNorm, Embedding}"
      using 2(4) by (auto simp: classify_param_def isinstance_def split: if_splits)
    then have s2: "mn' \<noteq> [] \<and> name_fits mn' (kind m') \<and> pn' \<in> {''weight'', ''bias''}"
      using decay_item_shape[OF wf root 2(1,2)] by blast
    then have "pn' = ''weight''" using False by (auto simp: endswith_def)
    then have "fpn = mn' @ ''.weight''" using 2(3) s2 by (simp add: join_name_def)
    then have "mn = mn'" using f1 by simp
    then show False using s1 s2 k2 by (auto simp: name_fits_def)
  qed
qed

lemma then_do_Inr [simp]:
  "then_do r f = Inr y \<longleftrightarrow> (\<exists>x. r = Inr x \<and> f x = Inr y)"
  by (cases r) (auto simp: then_do_def)

lemma then_do_Inr_first [simp]: "then_do (Inr x) f = f x"
  by (simp add: then_do_def)

lemma then_do_Inl_first [simp]: "then_do (Inl e) f = Inl e"
  by (simp add: then_do_def)

lemma nn_Linear_wf:
  "nn_Linear i out b = Inr m \<Longrightarrow> kind m = Linear \<and> wf_module m"
  by (auto simp: nn_Linear_def params_fit_def)

lemma nn_LayerNorm_wf:
  "nn_LayerNorm n b = Inr m \<Longrightarrow> kind m = LayerNorm \<and> wf_module m"
  by (auto simp: nn_LayerNorm_def params_fit_def)

lemma nn_Embedding_wf:
  "nn_Embedding n d = Inr m \<Longrightarrow> kind m = Embedding \<and> wf_module m"
  by (auto simp: nn_Embedding_def params_fit_def)

lemma nn_Dropout_wf:
  "nn_Dropout p = Inr m \<Longrightarrow> kind m = Dropout \<and> wf_module m"
  by (auto simp: nn_Dropout_def params_fit_def split: if_splits)

lemma nn_GELU_wf: "kind nn_GELU = GELU \<and> wf_module nn_GELU"
  by (simp add: nn_GELU_def params_fit_def)

lemma CausalSelfAttention_init_wf:
  assumes "CausalSelfAttention_init flash config = Inr m"
  shows "kind m = CausalSelfAttention \<and> wf_module m"
  using assms
  by (auto simp: CausalSelfAttention_init_def params_fit_def name_fits_def
      split: if_splits dest!: nn_Linear_wf nn_Dropout_wf)

lemma MLP_init_wf:
  assumes "MLP_init config = Inr m"
  shows "kind m = MLP \<and> wf_module m"
  using assms nn_GELU_wf
  by (auto simp: MLP_init_def params_fit_def name_fits_def
      dest!: nn_Linear_wf nn_Dropout_wf)

lemma Block_init_wf:
  assumes "Block_init flash config = Inr m"
  shows "kind m = Block \<and> wf_module m"
  using assms
  by (auto simp: Block_init_def params_fit_def name_fits_def
      dest!: nn_LayerNorm_wf CausalSelfAttention_init_wf MLP_init_wf)

lemma collect_Inr:
  "collect rs = Inr xs \<Longrightarrow> list_all2 (\<lambda>r x. r = Inr x) rs xs"
  by (induction rs arbitrary: xs) (auto split: sum.splits)

lemma str_nat_nonempty: "str_nat n \<noteq> []"
  by (subst str_nat.simps) simp

lemma wf_children_zip:
  assumes "\<forall>n \<in> set ns. n \<noteq> []" "\<forall>b \<in> set bs. kind b = Block \<and> wf_module b"
  shows "wf_children (zip ns bs)"
  using assms
proof (induction ns arbitrary: bs)
  case Nil
  then show ?case by simp
next
  case (Cons n ns)
  then show ?case by (cases bs) (auto simp: name_fits_def)
qed

lemma nn_ModuleList_wf:
  assumes "\<forall>b \<in> set bs. kind b = Block \<and> wf_module b"
  shows "kind (nn_ModuleList bs) = ModuleList \<and> wf_module (nn_ModuleList bs)"
proof -
  have "wf_children (zip (map str_nat [0..<length bs]) bs)"
    using assms by (intro wf_children_zip) (auto simp: str_nat_nonempty)
  then show ?thesis by (simp add: nn_ModuleList_def params_fit_def)
qed

lemma DeltaGPT_init_wf:
  assumes "DeltaGPT_init flash config = Inr gpt"
  shows "kind gpt = DeltaGPT \<and> wf_module gpt"
proof -
  obtain tok_emb pos_emb drop blocks ln_f head where
    c: "nn_Embedding (vocab_size config) (n_embd config) = Inr tok_emb"
       "nn_Embedding (block_size config) (n_embd config) = Inr pos_emb"
       "nn_Dropout (dropout config) = Inr drop"
       "collect (map (\<lambda>_. Block_init flash config) [0..<nat (n_layer config)]) = Inr blocks"
       "nn_LayerNorm (n_embd config) (bias config) = Inr ln_f"
       "nn_Linear (n_embd config) (vocab_size config) False = Inr head"
    and g: "gpt = Module DeltaGPT []
              [(''tok_emb'', tok_emb), (''pos_emb'', pos_emb), (''drop'', drop),
               (''blocks'', nn_ModuleList blocks), (''ln_f'', ln_f), (''head'', head)]"
    using assms unfolding DeltaGPT_init_def by auto
  have "list_all2 (\<lambda>r x. r = Inr x)
          (map (\<lambda>_. Block_init flash config) [0..<nat (n_layer config)]) blocks"
    using c(4) by (rule collect_Inr)
  then have "\<forall>b \<in> set blocks. Block_init flash config = Inr b"
    by (auto simp: list_all2_conv_all_nth in_set_conv_nth)
  then have "\<forall>b \<in> set blocks. kind b = Block \<and> wf_module b"
    using Block_init_wf by blast
  then have ml: "kind (nn_ModuleList blocks) = ModuleList \<and> wf_module (nn_ModuleList blocks)"
    by (rule nn_ModuleList_wf)
  show ?thesis
    unfolding g
    using nn_Embedding_wf[OF c(1)] nn_Embedding_wf[OF c(2)] nn_Dropout_wf[OF c(3)] ml
      nn_LayerNorm_wf[OF c(5)] nn_Linear_wf[OF c(6)]
    by (simp add: params_fit_def name_fits_def)
qed

lemma collect_Inl: "r \<in> set rs \<Longrightarrow> isl r \<Longrightarrow> isl (collect rs)"
  by (induction rs) (auto split: sum.splits)

lemma dict_lookup_Inr_iff: "(\<exists>v. dict_lookup d k = Inr v) \<longleftrightarrow> k \<in> set (map fst d)"
proof -
  have "map_of (rev d) k = None \<longleftrightarrow> k \<notin> fst ` set (rev d)" by (rule map_of_eq_None_iff)
  then show ?thesis by (auto simp: dict_lookup_def split: option.splits)
qed

lemma collect_lookups:
  assumes "set ks \<subseteq> set (map fst d)"
  shows "\<exists>vs. collect (map (dict_lookup d) ks) = Inr vs"
proof -
  have "\<forall>r \<in> set (map (dict_lookup d) ks). \<exists>x. r = Inr x"
    using assms dict_lookup_Inr_iff[of d] by auto
  then show ?thesis using collect_ok by blast
qed

lemma collect_lookups_fail:
  assumes "k \<in> set ks" "k \<notin> set (map fst d)"
  shows "isl (collect (map (dict_lookup d) ks))"
proof -
  have "\<not> (\<exists>v. dict_lookup d k = Inr v)" using assms(2) dict_lookup_Inr_iff[of d k] by simp
  then have "isl (dict_lookup d k)" by (cases "dict_lookup d k") auto
  then show ?thesis using assms(1) by (intro collect_Inl[of "dict_lookup d k"]) auto
qed

lemma then_do_isl: "isl r \<Longrightarrow> isl (then_do r f)"
  by (cases r) (auto simp: then_do_def)

lemma filter_empty_disjoint:
  "filter (\<lambda>pn. pn \<in> set ys) xs = [] \<longleftrightarrow> set xs \<inter> set ys = {}"
  by (auto simp: filter_empty_conv)

lemma filter_empty_subset:
  "filter (\<lambda>pn. pn \<notin> set ds \<union> set ns) xs = [] \<longleftrightarrow> set xs \<subseteq> set ds \<union> set ns"
  by (auto simp: filter_empty_conv)

lemma configure_optimizers_assertion:
  assumes "set (decay_names m) \<inter> set (no_decay_names m) \<noteq> {}
           \<or> \<not> set (map fst (named_parameters m)) \<subseteq> set (decay_names m) \<union> set (no_decay_names m)"
  shows "configure_optimizers m wd learning_rate beta = Inl AssertionError"
proof (cases "set (decay_names m) \<inter> set (no_decay_names m) = {}")
  case False
  then have "filter (\<lambda>pn. pn \<in> set (no_decay_names m)) (decay_names m) \<noteq> []"
    unfolding filter_empty_disjoint .
  then show ?thesis
    unfolding configure_optimizers_def Let_def by (simp only: if_True simp_thms)
next
  case True
  then have i: "filter (\<lambda>pn. pn \<in> set (no_decay_names m)) (decay_names m) = []"
    unfolding filter_empty_disjoint .
  have "\<not> set (map fst (named_parameters m)) \<subseteq> set (decay_names m) \<union> set (no_decay_names m)"
    using assms True by blast
  then have u: "filter (\<lambda>pn. pn \<notin> set (decay_names m) \<union> set (no_decay_names m))
             (map fst (named_parameters m)) \<noteq> []"
    unfolding filter_empty_subset .
  show ?thesis
    unfolding configure_optimizers_def Let_def i using u
    by (simp only: if_True if_False simp_thms)
qed

lemma configure_optimizers_violation:
  assumes "set (decay_names m) \<inter> set (no_decay_names m) \<noteq> {}
           \<or> set (decay_names m) \<union> set (no_decay_names m) \<noteq> set (map fst (named_parameters m))"
  shows "isl (configure_optimizers m wd learning_rate beta)"
proof (cases "set (decay_names m) \<inter> set (no_decay_names m) \<noteq> {}
           \<or> \<not> set (map fst (named_parameters m)) \<subseteq> set (decay_names m) \<union> set (no_decay_names m)")
  case True
  then show ?thesis by (simp only: configure_optimizers_assertion sum.disc)
next
  case False
  then obtain k where k: "k \<in> set (decay_names m) \<union> set (no_decay_names m)"
      "k \<notin> set (map fst (named_parameters m))"
    using assms by blast
  have i: "filter (\<lambda>pn. pn \<in> set (no_decay_names m)) (decay_names m) = []"
    unfolding filter_empty_disjoint using False by blast
  have u: "filter (\<lambda>pn. pn \<notin> set (decay_names m) \<union> set (no_decay_names m))
             (map fst (named_parameters m)) = []"
    unfolding filter_empty_subset using False by blast
  have c: "configure_optimizers m wd learning_rate beta =
      then_do (collect (map (dict_lookup (named_parameters m)) (sort (remdups (decay_names m)))))
             (\<lambda>decay_params.
           then_do (collect (map (dict_lookup (named_parameters m))
                      (sort (remdups (no_decay_names m)))))
             (\<lambda>no_decay_params.
               torch_AdamW [\<lparr>params = decay_params, weight_decay = wd\<rparr>,
                            \<lparr>params = no_decay_params, weight_decay = 0\<rparr>]
                 learning_rate beta))"
    unfolding configure_optimizers_def Let_def i u by (simp only: if_False simp_thms)
  show ?thesis
  proof (cases "k \<in> set (decay_names m)")
    case True
    then have "k \<in> set (sort (remdups (decay_names m)))" by simp
    then have "isl (collect (map (dict_lookup (named_parameters m))
                 (sort (remdups (decay_names m)))))"
      using k(2) by (rule collect_lookups_fail)
    then show ?thesis unfolding c by (rule then_do_isl)
  next
    case False
    then have kn: "k \<in> set (sort (remdups (no_decay_names m)))" using k(1) by auto
    have f: "isl (collect (map (dict_lookup (named_parameters m))
                (sort (remdups (no_decay_names m)))))"
      using kn k(2) by (rule collect_lookups_fail)
    show ?thesis
      unfolding c
      by (cases "collect (map (dict_lookup (named_parameters m))
                   (sort (remdups (decay_names m))))")
         (simp_all add: then_do_isl f)
  qed
qed

lemma built_model_partition:
  assumes "DeltaGPT_init flash config = Inr gpt"
  shows "set (decay_names gpt) \<inter> set (no_decay_names gpt) = {}"
    and "set (decay_names gpt) \<union> set (no_decay_names gpt) = set (map fst (named_parameters gpt))"
proof -
  have w: "wf_module gpt" and k: "kind gpt \<notin> {Linear, LayerNorm, Embedding}"
    using DeltaGPT_init_wf[OF assms] by auto
  show "set (decay_names gpt) \<inter> set (no_decay_names gpt) = {}"
    using w k by (rule decay_no_decay_disjoint)
  have "set (decay_names gpt) \<union> set (no_decay_names gpt) \<subseteq> set (map fst (named_parameters gpt))"
    using loop_names_are_parameters[OF w]
    by (auto simp: decay_names_iff no_decay_names_iff simp del: set_map)
  then show "set (decay_names gpt) \<union> set (no_decay_names gpt) = set (map fst (named_parameters gpt))"
    using all_parameters_classified[OF w] by blast
qed

lemma built_model_optimizer:
  assumes b: "DeltaGPT_init flash config = Inr gpt"
    and h: "0 \<le> learning_rate" "0 \<le> fst beta" "fst beta < 1" "0 \<le> snd beta" "snd beta < 1"
  shows "\<not> isl (configure_optimizers gpt wd learning_rate beta)"
proof -
  note p = built_model_partition[OF b]
  have i: "filter (\<lambda>pn. pn \<in> set (no_decay_names gpt)) (decay_names gpt) = []"
    using p(1) by (simp add: filter_empty_disjoint)
  have u: "filter (\<lambda>pn. pn \<notin> set (decay_names gpt) \<union> set (no_decay_names gpt))
             (map fst (named_parameters gpt)) = []"
    unfolding filter_empty_subset using p(2) by blast
  obtain dp where dp: "collect (map (dict_lookup (named_parameters gpt))
       (sort (remdups (decay_names gpt)))) = Inr dp"
    using collect_lookups[of "sort (remdups (decay_names gpt))" "named_parameters gpt"] p(2)
    by auto
  obtain np where np: "collect (map (dict_lookup (named_parameters gpt))
       (sort (remdups (no_decay_names gpt)))) = Inr np"
    using collect_lookups[of "sort (remdups (no_decay_names gpt))" "named_parameters gpt"] p(2)
    by auto
  have "configure_optimizers gpt wd learning_rate beta
          = torch_AdamW [\<lparr>params = dp, weight_decay = wd\<rparr>,
                         \<lparr>params = np, weight_decay = 0\<rparr>] learning_rate beta"
    unfolding configure_optimizers_def Let_def i u dp np
    by (simp only: if_False simp_thms then_do_Inr_first)
  then show ?thesis using h by (simp add: torch_AdamW_def)
qed

subsection \<open>C6: when construction fails\<close>

lemma attention_rejects:
  "\<not> evenly_divisible (n_embd config) (n_head config)
     \<Longrightarrow> CausalSelfAttention_init flash config \<noteq> Inr m"
  by (auto simp: evenly_divisible_def CausalSelfAttention_init_def)

lemma block_rejects:
  "\<not> evenly_divisible (n_embd config) (n_head config) \<Longrightarrow> Block_init flash config \<noteq> Inr m"
  by (auto simp: Block_init_def dest: attention_rejects)

lemma model_rejects:
  assumes "1 \<le> n_layer config" "\<not> evenly_divisible (n_embd config) (n_head config)"
  shows "isl (DeltaGPT_init flash config)"
proof (rule ccontr)
  assume "\<not> isl (DeltaGPT_init flash config)"
  then obtain gpt where "DeltaGPT_init flash config = Inr gpt"
    by (cases "DeltaGPT_init flash config") auto
  then obtain blocks where
    "collect (map (\<lambda>_. Block_init flash config) [0..<nat (n_layer config)]) = Inr blocks"
    unfolding DeltaGPT_init_def by auto
  then have l: "list_all2 (\<lambda>r x. r = Inr x)
          (map (\<lambda>_. Block_init flash config) [0..<nat (n_layer config)]) blocks"
    by (rule collect_Inr)
  have "0 < length blocks" using l assms(1) by (auto dest: list_all2_lengthD)
  then have "Block_init flash config = Inr (blocks ! 0)"
    using l assms(1) by (auto simp: list_all2_conv_all_nth)
  then show False using block_rejects[OF assms(2)] by blast
qed

lemma collect_replicated:
  "collect (map (\<lambda>_. Inr b) xs) = Inr (map (\<lambda>_. b) xs)"
  by (induction xs) auto

lemma block_accepts:
  assumes "library_accepts config" "evenly_divisible (n_embd config) (n_head config)"
  shows "\<exists>b. Block_init flash config = Inr b"
  using assms
  by (simp add: library_accepts_def evenly_divisible_def Block_init_def
      CausalSelfAttention_init_def MLP_init_def nn_LayerNorm_def nn_Linear_def nn_Dropout_def
      torch_empty_def)

lemma blocks_accept:
  assumes "library_accepts config"
    "n_layer config \<le> 0 \<or> evenly_divisible (n_embd config) (n_head config)"
  shows "\<exists>bs. collect (map (\<lambda>_. Block_init flash config) [0..<nat (n_layer config)]) = Inr bs"
proof (cases "n_layer config \<le> 0")
  case True
  then show ?thesis by simp
next
  case False
  then obtain b where "Block_init flash config = Inr b"
    using block_accepts assms by blast
  then show ?thesis by (simp add: collect_replicated)
qed

lemma model_accepts:
  assumes "library_accepts config"
    "n_layer config \<le> 0 \<or> evenly_divisible (n_embd config) (n_head config)"
  shows "\<not> isl (DeltaGPT_init flash config)"
proof -
  obtain bs where
    "collect (map (\<lambda>_. Block_init flash config) [0..<nat (n_layer config)]) = Inr bs"
    using blocks_accept[OF assms] by blast
  then show ?thesis
    using assms(1)
    by (simp add: library_accepts_def DeltaGPT_init_def nn_Embedding_def nn_LayerNorm_def
        nn_Linear_def nn_Dropout_def torch_empty_def)
qed

lemma three_heads_rejected: "DeltaGPT_init True (tiny1\<lparr>n_head := 3\<rparr>) = Inl AssertionError"
  by (simp add: tiny1_def DeltaGPT_init_def nn_Embedding_def nn_LayerNorm_def
        nn_Linear_def nn_Dropout_def torch_empty_def nn_ModuleList_def Block_init_def
        CausalSelfAttention_init_def)

text \<open>
  Claim C6 as stated makes construction fail whenever the width is not divisible by
  the head count. With \<open>n_layer = 0\<close> no attention layer is built, the assertion never
  runs, and a model with \<open>n_embd = 4\<close> and \<open>n_head = 3\<close> is constructed.
\<close>

theorem DeltaGPT_init_no_layers_counterexample:
  "\<not> evenly_divisible (n_embd no_layer_config) (n_head no_layer_config)
   \<and> DeltaGPT_init True no_layer_config
     = Inr (Module DeltaGPT []
              [(''tok_emb'', Module Embedding [(''weight'', [5, 4])] []),
               (''pos_emb'', Module Embedding [(''weight'', [4, 4])] []),
               (''drop'', Module Dropout [] []),
               (''blocks'', Module ModuleList [] []),
               (''ln_f'', Module LayerNorm [(''weight'', [4])] []),
               (''head'', Module Linear [(''weight'', [5, 4])] [])])"
  by (simp add: no_layer_config_def DeltaGPT_init_def nn_Embedding_def nn_LayerNorm_def
        nn_Linear_def nn_Dropout_def torch_empty_def nn_ModuleList_def evenly_divisible_def)

text \<open>
  Claim C6, amended. A configuration with at least one layer whose width is not evenly
  divisible by its head count fails to construct. For configurations the tensor library
  accepts (non-negative sizes, dropout probability in \<open>[0, 1]\<close>): with at least one
  layer, construction fails if and only if the width is not evenly divisible by the head
  count; without layers it succeeds whatever the head count.
\<close>

theorem DeltaGPT_init_fails_iff:
  "(1 \<le> n_layer config \<and> \<not> evenly_divisible (n_embd config) (n_head config)
      \<longrightarrow> isl (DeltaGPT_init flash config))
   \<and> (library_accepts config \<and> 1 \<le> n_layer config
      \<longrightarrow> (isl (DeltaGPT_init flash config)
            \<longleftrightarrow> \<not> evenly_divisible (n_embd config) (n_head config)))
   \<and> (library_accepts config \<and> n_layer config \<le> 0
      \<longrightarrow> \<not> isl (DeltaGPT_init flash config))"
  using model_rejects[of config flash] model_accepts[of config flash] by blast

theorem DeltaGPT_init_fails_iff_witness:
  "library_accepts tiny1 \<and> 1 \<le> n_layer tiny1
   \<and> evenly_divisible (n_embd tiny1) (n_head tiny1) \<and> \<not> isl (DeltaGPT_init True tiny1)
   \<and> library_accepts (tiny1\<lparr>n_head := 3\<rparr>) \<and> 1 \<le> n_layer (tiny1\<lparr>n_head := 3\<rparr>)
   \<and> \<not> evenly_divisible (n_embd (tiny1\<lparr>n_head := 3\<rparr>)) (n_head (tiny1\<lparr>n_head := 3\<rparr>))
   \<and> DeltaGPT_init True (tiny1\<lparr>n_head := 3\<rparr>) = Inl AssertionError
   \<and> library_accepts no_layer_config \<and> n_layer no_layer_config \<le> 0
   \<and> \<not> isl (DeltaGPT_init True no_layer_config)"
proof -
  have a: "library_accepts tiny1" "1 \<le> n_layer tiny1"
    "evenly_divisible (n_embd tiny1) (n_head tiny1)"
    by (simp_all add: tiny1_def library_accepts_def evenly_divisible_def)
  have b: "library_accepts (tiny1\<lparr>n_head := 3\<rparr>)" "1 \<le> n_layer (tiny1\<lparr>n_head := 3\<rparr>)"
    "\<not> evenly_divisible (n_embd (tiny1\<lparr>n_head := 3\<rparr>)) (n_head (tiny1\<lparr>n_head := 3\<rparr>))"
    by (simp_all add: tiny1_def library_accepts_def evenly_divisible_def)
  have c: "library_accepts no_layer_config" "n_layer no_layer_config \<le> 0"
    by (simp_all add: no_layer_config_def library_accepts_def)
  have d: "DeltaGPT_init True (tiny1\<lparr>n_head := 3\<rparr>) = Inl AssertionError"
    by (rule three_heads_rejected)
  show ?thesis
    using DeltaGPT_init_fails_iff[of tiny1 True] DeltaGPT_init_fails_iff[of no_layer_config True]
      a b c d
    by blast
qed

subsection \<open>C5: the parameter partition\<close>

lemma tiny1_model:
  "DeltaGPT_init True tiny1
     = Inr (Module DeltaGPT []
         [(''tok_emb'', Module Embedding [(''weight'', [5, 4])] []),
          (''pos_emb'', Module Embedding [(''weight'', [4, 4])] []),
          (''drop'', Module Dropout [] []),
          (''blocks'', Module ModuleList []
             [(''0'', Module Block []
                [(''ln_1'', Module LayerNorm [(''weight'', [4]), (''bias'', [4])] []),
                 (''attn'', Module CausalSelfAttention []
                    [(''c_attn'', Module Linear [(''weight'', [12, 4]), (''bias'', [12])] []),
                     (''c_proj'', Module Linear [(''weight'', [4, 4]), (''bias'', [4])] []),
                     (''attn_dropout'', Module Dropout [] []),
                     (''resid_dropout'', Module Dropout [] [])]),
                 (''ln_2'', Module LayerNorm [(''weight'', [4]), (''bias'', [4])] []),
                 (''mlp'', Module MLP []
                    [(''c_fc'', Module Linear [(''weight'', [16, 4]), (''bias'', [16])] []),
                     (''gelu'', Module GELU [] []),
                     (''c_proj'', Module Linear [(''weight'', [4, 16]), (''bias'', [4])] []),
                     (''dropout'', Module Dropout [] [])])])]),
          (''ln_f'', Module LayerNorm [(''weight'', [4]), (''bias'', [4])] []),
          (''head'', Module Linear [(''weight'', [5, 4])] [])])"
  by (simp add: tiny1_def DeltaGPT_init_def nn_Embedding_def nn_LayerNorm_def
        nn_Linear_def nn_Dropout_def torch_empty_def nn_ModuleList_def Block_init_def
        CausalSelfAttention_init_def MLP_init_def nn_GELU_def str_nat.simps digit_char_def)

lemma tiny1_decay:
  "decay_names (projr (DeltaGPT_init True tiny1))
     = [''blocks.0.attn.c_attn.weight'', ''blocks.0.attn.c_proj.weight'',
        ''blocks.0.mlp.c_fc.weight'', ''blocks.0.mlp.c_proj.weight'', ''head.weight'']"
  by (simp add: tiny1_model decay_names_def loop_items_def named_parameters_def join_name_def
      classify_param_def endswith_def isinstance_def)

text \<open>
  Claim C5. For every model built from a configuration that constructs, the names
  \<open>configure_optimizers\<close> puts into \<open>decay\<close> and \<open>no_decay\<close> are disjoint and
  together are exactly the names of the model's parameters, and with valid
  hyperparameters the optimizer is constructed. For any module tree whatever, a
  violation makes \<open>configure_optimizers\<close> fail: with an assertion error when a name
  is in both sets or a parameter in neither.
\<close>

theorem configure_optimizers_partitions_parameters:
  "(DeltaGPT_init flash config = Inr gpt \<longrightarrow>
       set (decay_names gpt) \<inter> set (no_decay_names gpt) = {}
     \<and> set (decay_names gpt) \<union> set (no_decay_names gpt) = set (map fst (named_parameters gpt))
     \<and> (0 \<le> learning_rate \<and> 0 \<le> fst beta \<and> fst beta < 1
          \<and> 0 \<le> snd beta \<and> snd beta < 1
        \<longrightarrow> \<not> isl (configure_optimizers gpt wd learning_rate beta)))
   \<and> (set (decay_names m) \<inter> set (no_decay_names m) \<noteq> {}
        \<or> set (decay_names m) \<union> set (no_decay_names m) \<noteq> set (map fst (named_parameters m))
      \<longrightarrow> isl (configure_optimizers m wd learning_rate beta))
   \<and> (set (decay_names m) \<inter> set (no_decay_names m) \<noteq> {}
        \<or> \<not> set (map fst (named_parameters m))
              \<subseteq> set (decay_names m) \<union> set (no_decay_names m)
      \<longrightarrow> configure_optimizers m wd learning_rate beta = Inl AssertionError)"
  using built_model_partition[of flash config gpt]
    built_model_optimizer[of flash config gpt learning_rate beta wd]
    configure_optimizers_violation[of m wd learning_rate beta]
    configure_optimizers_assertion[of m wd learning_rate beta]
  by blast

lemma unknown_layer_names:
  "map fst (named_parameters unknown_layer_model) = [''head.weight'', ''conv.weight'']"
  "decay_names unknown_layer_model = [''head.weight'']"
  "no_decay_names unknown_layer_model = []"
  by (simp_all add: unknown_layer_model_def decay_names_def
      no_decay_names_def loop_items_def named_parameters_def join_name_def classify_param_def
      endswith_def isinstance_def)

theorem configure_optimizers_partitions_parameters_witness:
  "\<not> isl (DeltaGPT_init True tiny1)
   \<and> set (decay_names (projr (DeltaGPT_init True tiny1)))
         \<inter> set (no_decay_names (projr (DeltaGPT_init True tiny1))) = {}
   \<and> set (decay_names (projr (DeltaGPT_init True tiny1)))
         \<union> set (no_decay_names (projr (DeltaGPT_init True tiny1)))
       = set (map fst (named_parameters (projr (DeltaGPT_init True tiny1))))
   \<and> decay_names (projr (DeltaGPT_init True tiny1))
       = [''blocks.0.attn.c_attn.weight'', ''blocks.0.attn.c_proj.weight'',
          ''blocks.0.mlp.c_fc.weight'', ''blocks.0.mlp.c_proj.weight'', ''head.weight'']
   \<and> \<not> isl (configure_optimizers (projr (DeltaGPT_init True tiny1)) (1/10) (3/10000) (9/10, 19/20))
   \<and> \<not> set (map fst (named_parameters unknown_layer_model))
          \<subseteq> set (decay_names unknown_layer_model) \<union> set (no_decay_names unknown_layer_model)
   \<and> configure_optimizers unknown_layer_model (1/10) (3/10000) (9/10, 19/20)
       = Inl AssertionError"
proof -
  have b: "DeltaGPT_init True tiny1 = Inr (projr (DeltaGPT_init True tiny1))"
    by (simp add: tiny1_model)
  have u: "\<not> set (map fst (named_parameters unknown_layer_model))
          \<subseteq> set (decay_names unknown_layer_model) \<union> set (no_decay_names unknown_layer_model)"
    by (simp add: unknown_layer_names)
  have h: "(0::real) \<le> 3/10000 \<and> 0 \<le> fst (9/10 :: real, 19/20 :: real)
      \<and> fst (9/10 :: real, 19/20 :: real) < 1 \<and> 0 \<le> snd (9/10 :: real, 19/20 :: real)
      \<and> snd (9/10 :: real, 19/20 :: real) < 1" by simp
  have ni: "\<not> isl (DeltaGPT_init True tiny1)" by (simp add: tiny1_model)
  note t = configure_optimizers_partitions_parameters
      [of True tiny1 "projr (DeltaGPT_init True tiny1)" "3/10000" "(9/10, 19/20)" "1/10"
          unknown_layer_model]
  from t b h have p: "set (decay_names (projr (DeltaGPT_init True tiny1)))
         \<inter> set (no_decay_names (projr (DeltaGPT_init True tiny1))) = {}
   \<and> set (decay_names (projr (DeltaGPT_init True tiny1)))
         \<union> set (no_decay_names (projr (DeltaGPT_init True tiny1)))
       = set (map fst (named_parameters (projr (DeltaGPT_init True tiny1))))
   \<and> \<not> isl (configure_optimizers (projr (DeltaGPT_init True tiny1)) (1/10) (3/10000) (9/10, 19/20))"
    by blast
  from t u have q: "configure_optimizers unknown_layer_model (1/10) (3/10000) (9/10, 19/20)
       = Inl AssertionError"
    by blast
  show ?thesis using ni p q u tiny1_decay by blast
qed

end
